theory Spec2Isabelle
  imports Main "HOL-Library.Sublist"
begin

section \<open>Data model\<close>

text \<open>
  The embedding follows \<^verbatim>\<open>ReactDiagramEditor.tsx\<close> and
  \<^verbatim>\<open>ProcessInstanceFindById.tsx\<close>. React state is a record that every handler
  takes and returns; calls that leave the component (to the diagram engine, to the
  network, to the host's callbacks, to the console's error channel) are appended to a
  trace, in the order the code issues them. What the diagram engine answers is not in
  the repository: it is a parameter (the record \<open>engine\<close>). An exception is a value
  \<open>JsError message\<close> on the left of a sum. \<^verbatim>\<open>console.log\<close> output is debugging
  text and is left out of the trace.
\<close>

text \<open>The fields of \<^verbatim>\<open>Task\<close> (\<^verbatim>\<open>interfaces.ts\<close>) that the component reads.\<close>

record task =
  bpmn_identifier :: string
  bpmn_process_definition_identifier :: string
  state :: string
  typename :: string

text \<open>The optional callbacks of \<^verbatim>\<open>OwnProps\<close>.\<close>

datatype hostcb =
    OnCallActivityOverlayClick
  | OnDataStoresRequested
  | OnDeleteFile
  | OnDmnFilesRequested
  | OnElementClick
  | OnElementsChanged
  | OnJsonSchemaFilesRequested
  | OnLaunchBpmnEditor
  | OnLaunchDmnEditor
  | OnLaunchJsonSchemaEditor
  | OnLaunchMarkdownEditor
  | OnLaunchScriptEditor
  | OnLaunchMessageEditor
  | OnMessagesRequested
  | OnSearchProcessModels
  | OnServiceTasksRequested
  | OnSetPrimaryFile
  | SaveDiagram

text \<open>
  \<^verbatim>\<open>OwnProps\<close>. An optional string is \<open>None\<close> when it is \<^verbatim>\<open>undefined\<close> or
  \<^verbatim>\<open>null\<close>. \<open>host\<close> lists the callbacks the host supplied, each with the identity of
  its function object (React compares dependencies by identity); \<open>tasksRef\<close> is the
  identity of the \<open>tasks\<close> array.
\<close>

record props =
  diagramType :: string
  diagramXML :: "string option"
  fileName :: "string option"
  url :: "string option"
  processModelId :: string
  tasks :: "task list option"
  tasksRef :: nat
  host :: "(hostcb \<times> nat) list"

definition supplied :: "props \<Rightarrow> hostcb \<Rightarrow> bool" where
  "supplied p cb = (map_of (host p) cb \<noteq> None)"

text \<open>JavaScript truthiness of an optional string: defined and not empty.\<close>

fun truthy :: "string option \<Rightarrow> bool" where
  "truthy None = False"
| "truthy (Some s) = (s \<noteq> [])"

text \<open>A JavaScript value where the code can produce more than a string.\<close>

datatype jsval = Undefined | Bool bool | Str string

text \<open>
  A reference that the engine's parser could not resolve, as listed in the
  \<^verbatim>\<open>import.parse.complete\<close> event: the object that holds it (an address in the
  model store), the property, the referenced id and a name.
\<close>

record reference =
  ref_element :: nat
  ref_property :: string
  ref_id :: "string option"
  ref_name :: "string option"

text \<open>The fields of an engine event that the handlers read.\<close>

record event =
  ev_error :: "string option"
  ev_element :: string
  ev_script :: string
  ev_scriptType :: string
  ev_value :: string
  ev_processId :: string
  ev_references :: "reference list option"

datatype arg =
    AStr string
  | AEvent event
  | ATask task
  | AIds "string list"
  | AEventBus
  | AModeling nat

text \<open>
  The text handler given to \<^verbatim>\<open>fetchDiagramFromURL\<close>: none, or one of the two
  functions that fill in a blank template.
\<close>

datatype texthandler = NoTextHandler | BpmnTextHandler | DmnTextHandler

datatype call =
    NewBpmnModeler nat
  | NewDmnModeler nat
  | NewBpmnViewer nat
  | ImportXML nat string
  | Destroy nat
  | CanvasZoom nat
  | AddMarker nat string string
  | OverlaysAdd nat string task
  | HostCall hostcb "arg list"
  | Fetch string texthandler
  | StepZoom nat int
  | MakeCallToBackend string
  | ConsoleError string
  | Uncaught string

datatype jserror = JsError string

text \<open>
  An object the component creates in the engine's model store:
  \<^verbatim>\<open>_moddle.create(desc, props)\<close> with its \<^verbatim>\<open>$parent\<close>.
\<close>

record moddle_elem =
  el_type :: string
  el_id :: "string option"
  el_name :: jsval
  el_parent :: nat

text \<open>
  A listener registered with \<^verbatim>\<open>on\<close>: the engine instance, the event name, which
  function of the component it is, and the props its closure captured.
\<close>

datatype handler =
    HScriptEdit
  | HMarkdownEdit
  | HCallActivityEdit
  | HFileEdit
  | HDmnEdit
  | HElementClick
  | HElementsChanged
  | HServiceTasksRequested
  | HDataStoresRequested
  | HJsonSchemaFilesRequested
  | HDmnFilesRequested
  | HMessagesRequested
  | HJsonSchemaFilesRequestedAgain
  | HCallActivitySearch
  | HMessageEdit
  | HImportDone
  | HParseComplete

record subscription =
  sub_target :: nat
  sub_name :: string
  sub_handler :: handler
  sub_props :: props

text \<open>
  The three \<^verbatim>\<open>useState\<close> cells of the component, and what the component has done
  to the world: the trace, the listeners it registered, and the properties it set on
  objects of the engine's model store (newest first; \<open>map_of\<close> reads the current
  value). An engine instance is named by a number; \<open>nextObject\<close> is the next unused one.
\<close>

record st =
  diagramXMLString :: string
  diagramModelerState :: "nat option"
  performingXmlUpdates :: bool
  trace :: "call list"
  listeners :: "subscription list"
  moddle :: "((nat \<times> string) \<times> moddle_elem) list"
  nextObject :: nat

text \<open>A function that can throw returns the state it reached on either side.\<close>

type_synonym result = "(jserror \<times> st) + st"

definition emit :: "call \<Rightarrow> st \<Rightarrow> st" where
  "emit c s = s\<lparr>trace := trace s @ [c]\<rparr>"

definition on :: "nat \<Rightarrow> string \<Rightarrow> handler \<Rightarrow> props \<Rightarrow> st \<Rightarrow> st" where
  "on m name h p s =
     s\<lparr>listeners := listeners s @
          [\<lparr>sub_target = m, sub_name = name, sub_handler = h, sub_props = p\<rparr>]\<rparr>"

text \<open>
  What the engine answers. \<open>getActiveViewer m\<close> is the active viewer of a
  decision-table modeler (\<open>None\<close>: \<^verbatim>\<open>undefined\<close>);
  \<open>getBpmnProcessIdentifiers m\<close> is what the helper of that name returns for the root
  element of \<open>m\<close>'s canvas; \<open>addMarker\<close> and \<open>overlaysAdd\<close> say whether the call
  throws, and with which message.
\<close>

record engine =
  getActiveViewer :: "nat \<Rightarrow> nat option"
  getBpmnProcessIdentifiers :: "nat \<Rightarrow> string list"
  addMarker :: "nat \<Rightarrow> string \<Rightarrow> string \<Rightarrow> string option"
  overlaysAdd :: "nat \<Rightarrow> string \<Rightarrow> string option"

section \<open>Strings\<close>

text \<open>
  \<^verbatim>\<open>s.match(/lit/)\<close> with a pattern of plain letters is truthy exactly when the
  letters occur in \<open>s\<close>; the search tries every start position from the left.
\<close>

fun js_match :: "string \<Rightarrow> string \<Rightarrow> bool" where
  "js_match pat [] = (pat = [])"
| "js_match pat (c # cs) = (prefix pat (c # cs) \<or> js_match pat cs)"

text \<open>
  \<^verbatim>\<open>text.replaceAll(pat, rep)\<close> for a string pattern: every occurrence, found from
  the left and not overlapping, is replaced. (The replacements of this component hold
  no \<^verbatim>\<open>$\<close>, so no replacement pattern is expanded.)
\<close>

function replaceAll :: "string \<Rightarrow> string \<Rightarrow> string \<Rightarrow> string" where
  "replaceAll pat rep [] = (if pat = [] then rep else [])"
| "replaceAll pat rep (c # cs) =
     (if pat = [] then rep @ c # replaceAll pat rep cs
      else if prefix pat (c # cs) then rep @ replaceAll pat rep (drop (length pat) (c # cs))
      else c # replaceAll pat rep cs)"
  by pat_completeness auto
termination
  by (relation "measure (\<lambda>(pat, rep, s). length s)") auto

section \<open>The import effect: highlighting\<close>

definition taskSpecsThatCannotBeHighlighted :: "string list" where
  "taskSpecsThatCannotBeHighlighted = [''Root'', ''Start'', ''End'']"

definition checkTaskCanBeHighlighted :: "string \<Rightarrow> bool" where
  "checkTaskCanBeHighlighted taskBpmnId =
     (taskBpmnId \<notin> set taskSpecsThatCannotBeHighlighted \<and>
      \<not> js_match ''EndJoin'' taskBpmnId \<and>
      \<not> js_match ''BoundaryEventParent'' taskBpmnId \<and>
      \<not> js_match ''BoundaryEventJoin'' taskBpmnId \<and>
      \<not> js_match ''BoundaryEventSplit'' taskBpmnId)"

text \<open>The one message that both \<^verbatim>\<open>catch\<close> blocks let pass.\<close>

definition missingNodeMessage :: string where
  "missingNodeMessage = ''Cannot read properties of undefined (reading 'id')''"

definition highlightBpmnIoElement ::
    "engine \<Rightarrow> nat \<Rightarrow> task \<Rightarrow> string \<Rightarrow> string list \<Rightarrow> st \<Rightarrow> result" where
  "highlightBpmnIoElement eng canvas t bpmnIoClassName bpmnProcessIdentifiers s =
     (if checkTaskCanBeHighlighted (bpmn_identifier t) then
        (if bpmn_process_definition_identifier t \<in> set bpmnProcessIdentifiers then
           (case addMarker eng canvas (bpmn_identifier t) bpmnIoClassName of
              None \<Rightarrow> Inr (emit (AddMarker canvas (bpmn_identifier t) bpmnIoClassName) s)
            | Some message \<Rightarrow>
                if message \<noteq> missingNodeMessage then Inl (JsError message, s) else Inr s)
         else Inr s)
      else Inr s)"

text \<open>
  \<open>dms\<close> is the engine handle the effect's closure captured. A successful
  \<^verbatim>\<open>overlays.add\<close> is recorded with the task its click listener closes over.
\<close>

definition addOverlayOnCallActivity ::
    "props \<Rightarrow> engine \<Rightarrow> nat option \<Rightarrow> task \<Rightarrow> string list \<Rightarrow> st \<Rightarrow> result" where
  "addOverlayOnCallActivity p eng dms t bpmnProcessIdentifiers s =
     (if \<not> supplied p OnCallActivityOverlayClick then Inr s
      else if diagramType p \<noteq> ''readonly'' then Inr s
      else
        (case dms of
           None \<Rightarrow> Inr s
         | Some m \<Rightarrow>
             if bpmn_process_definition_identifier t \<in> set bpmnProcessIdentifiers then
               (case overlaysAdd eng m (bpmn_identifier t) of
                  None \<Rightarrow> Inr (emit (OverlaysAdd m (bpmn_identifier t) t) s)
                | Some message \<Rightarrow>
                    if message \<noteq> missingNodeMessage then Inl (JsError message, s) else Inr s)
             else Inr s))"

text \<open>The click listener of the overlay's button.\<close>

definition overlayClick :: "task \<Rightarrow> st \<Rightarrow> st" where
  "overlayClick t s =
     (emit (HostCall OnCallActivityOverlayClick [ATask t]) s)
       \<lparr>diagramXMLString := [], diagramModelerState := None\<rparr>"

text \<open>The class name chosen at the top of the \<^verbatim>\<open>tasks.forEach\<close> body.\<close>

definition className :: "string \<Rightarrow> string" where
  "className taskState =
     (if taskState = ''COMPLETED'' then ''completed-task-highlight''
      else if taskState \<in> set [''READY'', ''WAITING'', ''STARTED''] then ''active-task-highlight''
      else if taskState = ''CANCELLED'' then ''cancelled-task-highlight''
      else if taskState = ''ERROR'' then ''errored-task-highlight''
      else [])"

text \<open>The body of \<^verbatim>\<open>tasks.forEach\<close>, and the loop: an exception ends it.\<close>

definition forEachBody ::
    "props \<Rightarrow> engine \<Rightarrow> nat option \<Rightarrow> nat \<Rightarrow> string list \<Rightarrow> task \<Rightarrow> st \<Rightarrow> result" where
  "forEachBody p eng dms canvas bpmnProcessIdentifiers t s =
     (case (if className (state t) \<noteq> []
            then highlightBpmnIoElement eng canvas t (className (state t)) bpmnProcessIdentifiers s
            else Inr s) of
        Inl e \<Rightarrow> Inl e
      | Inr s1 \<Rightarrow>
          if typename t = ''CallActivity'' \<and>
             state t \<notin> set [''FUTURE'', ''LIKELY'', ''MAYBE'']
          then addOverlayOnCallActivity p eng dms t bpmnProcessIdentifiers s1
          else Inr s1)"

fun forEachTask ::
    "props \<Rightarrow> engine \<Rightarrow> nat option \<Rightarrow> nat \<Rightarrow> string list \<Rightarrow> task list \<Rightarrow> st \<Rightarrow> result" where
  "forEachTask p eng dms canvas ids [] s = Inr s"
| "forEachTask p eng dms canvas ids (t # ts) s =
     (case forEachBody p eng dms canvas ids t s of
        Inl e \<Rightarrow> Inl e
      | Inr s1 \<Rightarrow> forEachTask p eng dms canvas ids ts s1)"

definition handleError :: "string \<Rightarrow> st \<Rightarrow> st" where
  "handleError err s = emit (ConsoleError err) s"

text \<open>
  \<^verbatim>\<open>onImportDone\<close>. The event's error is an \<^verbatim>\<open>Error\<close> object (here its
  message) or absent. Reading a property of \<^verbatim>\<open>null\<close> or \<^verbatim>\<open>undefined\<close> throws a
  \<^verbatim>\<open>TypeError\<close>.
\<close>

definition onImportDone :: "props \<Rightarrow> engine \<Rightarrow> nat option \<Rightarrow> event \<Rightarrow> st \<Rightarrow> result" where
  "onImportDone p eng dms ev s =
     (case ev_error ev of
        Some err \<Rightarrow> Inr (handleError err s)
      | None \<Rightarrow>
          (case (if diagramType p = ''dmn''
                 then (case dms of None \<Rightarrow> None | Some m \<Rightarrow> getActiveViewer eng m)
                 else dms) of
             None \<Rightarrow> Inl (JsError ''TypeError'', s)
           | Some modeler \<Rightarrow>
               (case tasks p of
                  None \<Rightarrow> Inr (emit (CanvasZoom modeler) s)
                | Some ts \<Rightarrow>
                    forEachTask p eng dms modeler (getBpmnProcessIdentifiers eng modeler) ts
                      (emit (CanvasZoom modeler) s))))"

section \<open>The import effect: restoring loop references\<close>

definition isLoopDataRef :: "reference \<Rightarrow> bool" where
  "isLoopDataRef r =
     (ref_property r = ''bpmn:loopDataInputRef'' \<or> ref_property r = ''bpmn:loopDataOutputRef'')"

text \<open>
  The body of \<^verbatim>\<open>refs.forEach\<close>: the element is created from the descriptor of
  \<^verbatim>\<open>bpmn:ItemAwareElement\<close> with \<^verbatim>\<open>id\<close> and \<^verbatim>\<open>name\<close>, gets its parent, and is set
  on the owning object under the reference's property.
\<close>

definition restoreReference :: "reference \<Rightarrow> st \<Rightarrow> st" where
  "restoreReference r s =
     s\<lparr>moddle :=
         ((ref_element r, ref_property r),
          \<lparr>el_type = ''bpmn:ItemAwareElement'',
           el_id = ref_id r,
           el_name = (if truthy (ref_id r) then Bool (ref_name r = None)
                      else (case ref_name r of None \<Rightarrow> Undefined | Some n \<Rightarrow> Str n)),
           el_parent = ref_element r\<rparr>) # moddle s\<rparr>"

text \<open>The listener that \<^verbatim>\<open>fixUnresolvedReferences\<close> registers.\<close>

definition onParseComplete :: "event \<Rightarrow> st \<Rightarrow> st" where
  "onParseComplete ev s =
     (case ev_references ev of
        None \<Rightarrow> s
      | Some references \<Rightarrow> fold restoreReference (filter isLoopDataRef references) s)"

definition fixUnresolvedReferences :: "nat \<Rightarrow> props \<Rightarrow> st \<Rightarrow> st" where
  "fixUnresolvedReferences diagramModelerToUse p s =
     on diagramModelerToUse ''import.parse.complete'' HParseComplete p s"

section \<open>The effect that creates the engine and bridges its events\<close>

definition handleLaunchScriptEditor :: "props \<Rightarrow> nat \<Rightarrow> event \<Rightarrow> st \<Rightarrow> st" where
  "handleLaunchScriptEditor p diagramModeler ev s =
     (if supplied p OnLaunchScriptEditor then
        emit (HostCall OnLaunchScriptEditor
                [AStr (ev_element ev), AStr (ev_script ev), AStr (ev_scriptType ev),
                 AEventBus, AModeling diagramModeler])
          (s\<lparr>performingXmlUpdates := True\<rparr>)
      else s)"

definition handleLaunchMarkdownEditor :: "props \<Rightarrow> event \<Rightarrow> st \<Rightarrow> st" where
  "handleLaunchMarkdownEditor p ev s =
     (if supplied p OnLaunchMarkdownEditor then
        emit (HostCall OnLaunchMarkdownEditor [AStr (ev_element ev), AStr (ev_value ev), AEventBus])
          (s\<lparr>performingXmlUpdates := True\<rparr>)
      else s)"

definition handleElementClick :: "props \<Rightarrow> engine \<Rightarrow> nat \<Rightarrow> event \<Rightarrow> st \<Rightarrow> st" where
  "handleElementClick p eng diagramModeler ev s =
     (if supplied p OnElementClick then
        emit (HostCall OnElementClick
                [AStr (ev_element ev), AIds (getBpmnProcessIdentifiers eng diagramModeler)]) s
      else s)"

definition handleServiceTasksRequested :: "props \<Rightarrow> event \<Rightarrow> st \<Rightarrow> st" where
  "handleServiceTasksRequested p ev s =
     (if supplied p OnServiceTasksRequested
      then emit (HostCall OnServiceTasksRequested [AEvent ev]) s else s)"

definition handleDataStoresRequested :: "props \<Rightarrow> event \<Rightarrow> st \<Rightarrow> st" where
  "handleDataStoresRequested p ev s =
     (if supplied p OnDataStoresRequested
      then emit (HostCall OnDataStoresRequested [AEvent ev]) s else s)"

text \<open>\<^verbatim>\<open>if (error) { console.error(error); }\<close> at the head of three listeners.\<close>

definition logEventError :: "event \<Rightarrow> st \<Rightarrow> st" where
  "logEventError ev s = (case ev_error ev of None \<Rightarrow> s | Some err \<Rightarrow> emit (ConsoleError err) s)"

text \<open>
  What a registered listener does when the engine calls it with an event. The props
  are those its closure captured; the engine instance is the one it is registered on.
\<close>

fun runHandler :: "engine \<Rightarrow> handler \<Rightarrow> props \<Rightarrow> nat \<Rightarrow> event \<Rightarrow> st \<Rightarrow> result" where
  "runHandler eng HScriptEdit p m ev s =
     Inr (handleLaunchScriptEditor p m ev (logEventError ev s))"
| "runHandler eng HMarkdownEdit p m ev s =
     Inr (handleLaunchMarkdownEditor p ev (logEventError ev s))"
| "runHandler eng HCallActivityEdit p m ev s =
     Inr (if supplied p OnLaunchBpmnEditor
          then emit (HostCall OnLaunchBpmnEditor [AStr (ev_processId ev)]) s else s)"
| "runHandler eng HFileEdit p m ev s =
     Inr (if supplied p OnLaunchJsonSchemaEditor
          then emit (HostCall OnLaunchJsonSchemaEditor
                       [AStr (ev_element ev), AStr (ev_value ev), AEventBus]) (logEventError ev s)
          else logEventError ev s)"
| "runHandler eng HDmnEdit p m ev s =
     Inr (if supplied p OnLaunchDmnEditor
          then emit (HostCall OnLaunchDmnEditor [AStr (ev_value ev)]) s else s)"
| "runHandler eng HElementClick p m ev s = Inr (handleElementClick p eng m ev s)"
| "runHandler eng HElementsChanged p m ev s =
     Inr (if supplied p OnElementsChanged
          then emit (HostCall OnElementsChanged [AEvent ev]) s else s)"
| "runHandler eng HServiceTasksRequested p m ev s = Inr (handleServiceTasksRequested p ev s)"
| "runHandler eng HDataStoresRequested p m ev s = Inr (handleDataStoresRequested p ev s)"
| "runHandler eng HJsonSchemaFilesRequested p m ev s =
     Inr (if supplied p OnJsonSchemaFilesRequested
          then emit (HostCall OnJsonSchemaFilesRequested [AEvent ev]) s else s)"
| "runHandler eng HDmnFilesRequested p m ev s =
     Inr (if supplied p OnDmnFilesRequested
          then emit (HostCall OnDmnFilesRequested [AEvent ev]) s else s)"
| "runHandler eng HMessagesRequested p m ev s =
     Inr (if supplied p OnMessagesRequested
          then emit (HostCall OnMessagesRequested [AEvent ev]) s else s)"
| "runHandler eng HJsonSchemaFilesRequestedAgain p m ev s =
     Inr (handleServiceTasksRequested p ev s)"
| "runHandler eng HCallActivitySearch p m ev s =
     Inr (if supplied p OnSearchProcessModels
          then emit (HostCall OnSearchProcessModels
                       [AStr (ev_value ev), AEventBus, AStr (ev_element ev)]) s
          else s)"
| "runHandler eng HMessageEdit p m ev s =
     Inr (if supplied p OnLaunchMessageEditor
          then emit (HostCall OnLaunchMessageEditor [AEvent ev]) s else s)"
| "runHandler eng HImportDone p m ev s = onImportDone p eng (Some m) ev s"
| "runHandler eng HParseComplete p m ev s = Inr (onParseComplete ev s)"

text \<open>The fifteen \<^verbatim>\<open>diagramModeler.on\<close> calls of the effect, in the order of the source.\<close>

definition bridge :: "(string \<times> handler) list" where
  "bridge =
     [(''spiff.script.edit'', HScriptEdit),
      (''spiff.markdown.edit'', HMarkdownEdit),
      (''spiff.callactivity.edit'', HCallActivityEdit),
      (''spiff.file.edit'', HFileEdit),
      (''spiff.dmn.edit'', HDmnEdit),
      (''element.click'', HElementClick),
      (''elements.changed'', HElementsChanged),
      (''spiff.service_tasks.requested'', HServiceTasksRequested),
      (''spiff.data_stores.requested'', HDataStoresRequested),
      (''spiff.json_schema_files.requested'', HJsonSchemaFilesRequested),
      (''spiff.dmn_files.requested'', HDmnFilesRequested),
      (''spiff.messages.requested'', HMessagesRequested),
      (''spiff.json_schema_files.requested'', HJsonSchemaFilesRequestedAgain),
      (''spiff.callactivity.search'', HCallActivitySearch),
      (''spiff.message.edit'', HMessageEdit)]"

text \<open>
  The effect body. (It first rebuilds the content of the \<^verbatim>\<open>diagram-container\<close>
  element; the document tree is not part of the state here.) For a diagram type other
  than the three it knows, the engine stays \<^verbatim>\<open>null\<close>: the state is set to it and the
  first \<^verbatim>\<open>diagramModeler.on\<close> throws, which nothing in the component catches.
\<close>

definition createEffect :: "props \<Rightarrow> st \<Rightarrow> st" where
  "createEffect p s =
     (let m = nextObject s in
      if diagramType p = ''bpmn'' then
        fold (\<lambda>(name, h). on m name h p) bridge
          ((emit (NewBpmnModeler m) s)\<lparr>nextObject := Suc m, diagramModelerState := Some m\<rparr>)
      else if diagramType p = ''dmn'' then
        fold (\<lambda>(name, h). on m name h p) bridge
          ((emit (NewDmnModeler m) s)\<lparr>nextObject := Suc m, diagramModelerState := Some m\<rparr>)
      else if diagramType p = ''readonly'' then
        fold (\<lambda>(name, h). on m name h p) bridge
          ((emit (NewBpmnViewer m) s)\<lparr>nextObject := Suc m, diagramModelerState := Some m\<rparr>)
      else emit (Uncaught ''TypeError'') (s\<lparr>diagramModelerState := None\<rparr>))"

text \<open>
  The engine's event bus calls the listeners registered on an instance under a name
  in the order of their registration; an exception of a listener ends the dispatch.
\<close>

fun dispatch :: "engine \<Rightarrow> subscription list \<Rightarrow> event \<Rightarrow> st \<Rightarrow> result" where
  "dispatch eng [] ev s = Inr s"
| "dispatch eng (l # ls) ev s =
     (case runHandler eng (sub_handler l) (sub_props l) (sub_target l) ev s of
        Inl e \<Rightarrow> Inl e
      | Inr s1 \<Rightarrow> dispatch eng ls ev s1)"

definition fire :: "engine \<Rightarrow> nat \<Rightarrow> string \<Rightarrow> event \<Rightarrow> st \<Rightarrow> result" where
  "fire eng m name ev s =
     dispatch eng (filter (\<lambda>l. sub_target l = m \<and> sub_name l = name) (listeners s)) ev s"

section \<open>The import effect\<close>

definition zoom :: "engine \<Rightarrow> props \<Rightarrow> nat option \<Rightarrow> int \<Rightarrow> st \<Rightarrow> st" where
  "zoom eng p dms amount s =
     (case dms of
        None \<Rightarrow> s
      | Some m \<Rightarrow>
          (case (if diagramType p = ''dmn'' then getActiveViewer eng m else Some m) of
             None \<Rightarrow> s
           | Some modeler \<Rightarrow>
               if amount = 0 then emit (CanvasZoom modeler) s
               else emit (StepZoom modeler amount) s))"

text \<open>
  The effect reads the state of the render it belongs to (\<open>snap\<close>) and acts on the
  current world. It returns the engine its cleanup function will destroy, or \<open>None\<close>
  when it returns \<^verbatim>\<open>undefined\<close>.
\<close>

definition importEffect :: "engine \<Rightarrow> props \<Rightarrow> st \<Rightarrow> st \<Rightarrow> st \<times> nat option" where
  "importEffect eng p snap s =
     (case diagramModelerState snap of
        None \<Rightarrow> (s, None)
      | Some m \<Rightarrow>
          if diagramXMLString snap = [] then (s, None)
          else
            (let s1 = on m ''import.done'' HImportDone p s;
                 s2 = emit (ImportXML m (diagramXMLString snap)) s1;
                 s3 = zoom eng p (Some m) 0 s2;
                 s4 = (if diagramType p \<noteq> ''dmn'' then fixUnresolvedReferences m p s3 else s3)
             in (s4, Some m)))"

section \<open>The effect that gets the diagram's text\<close>

definition bpmnTextHandler :: "string \<Rightarrow> string \<Rightarrow> st \<Rightarrow> st" where
  "bpmnTextHandler token text s =
     s\<lparr>diagramXMLString := replaceAll ''{{PROCESS_ID}}'' (''Process_'' @ token) text\<rparr>"

definition dmnTextHandler :: "string \<Rightarrow> string \<Rightarrow> st \<Rightarrow> st" where
  "dmnTextHandler token text s =
     s\<lparr>diagramXMLString := replaceAll ''{{DECISION_ID}}'' (''decision_'' @ token) text\<rparr>"

definition setDiagramXMLStringFromResponseJson :: "string \<Rightarrow> st \<Rightarrow> st" where
  "setDiagramXMLStringFromResponseJson file_contents s = s\<lparr>diagramXMLString := file_contents\<rparr>"

text \<open>
  The continuation of \<^verbatim>\<open>fetch\<close> when the text has arrived: \<^verbatim>\<open>.then(textHandler)\<close>.
  \<open>token\<close> is what \<^verbatim>\<open>makeid(7)\<close> returns. With no handler the text goes nowhere.
\<close>

fun fetchResolved :: "texthandler \<Rightarrow> string \<Rightarrow> string \<Rightarrow> st \<Rightarrow> st" where
  "fetchResolved NoTextHandler token text s = s"
| "fetchResolved BpmnTextHandler token text s = bpmnTextHandler token text s"
| "fetchResolved DmnTextHandler token text s = dmnTextHandler token text s"

definition fetchDiagramFromJsonAPI :: "props \<Rightarrow> string \<Rightarrow> st \<Rightarrow> st" where
  "fetchDiagramFromJsonAPI p file s =
     emit (MakeCallToBackend (''/process-models/'' @ processModelId p @ ''/files/'' @ file)) s"

text \<open>\<^verbatim>\<open>if (x)\<close> on an optional string, with the string at hand where it holds.\<close>

fun given :: "string option \<Rightarrow> string option" where
  "given None = None"
| "given (Some x) = (if x = [] then None else Some x)"

definition getXmlEffect :: "props \<Rightarrow> st \<Rightarrow> st \<Rightarrow> st" where
  "getXmlEffect p snap s =
     (if diagramModelerState snap = None then s
      else if performingXmlUpdates snap then s
      else
        (case given (diagramXML p) of
           Some xml \<Rightarrow> s\<lparr>diagramXMLString := xml\<rparr>
         | None \<Rightarrow>
             (case given (url p) of
                Some u \<Rightarrow> emit (Fetch u NoTextHandler) s
              | None \<Rightarrow>
                  (case given (fileName p) of
                     Some f \<Rightarrow> fetchDiagramFromJsonAPI p f s
                   | None \<Rightarrow>
                       if diagramType p = ''dmn''
                       then emit (Fetch ''/new_dmn_diagram.dmn'' DmnTextHandler) s
                       else emit (Fetch ''/new_bpmn_diagram.bpmn'' BpmnTextHandler) s))))"

section \<open>React: renders, effects and their cleanups\<close>

text \<open>
  The dependency arrays of the three effects, as values React compares. \<^verbatim>\<open>zoom\<close> is
  a \<^verbatim>\<open>useCallback\<close> over the engine handle and the diagram type, both of which the
  import effect lists itself.
\<close>

type_synonym createDeps = "string \<times> nat option list"
type_synonym importDeps = "string \<times> string \<times> nat option \<times> nat option \<times> nat option"
type_synonym getXmlDeps =
  "nat option \<times> string \<times> string option \<times> string option \<times> bool \<times> string \<times> string option"

definition createDepsOf :: "props \<Rightarrow> createDeps" where
  "createDepsOf p =
     (diagramType p,
      map (map_of (host p))
        [OnDataStoresRequested, OnDmnFilesRequested, OnElementClick, OnElementsChanged,
         OnJsonSchemaFilesRequested, OnLaunchBpmnEditor, OnLaunchDmnEditor,
         OnLaunchJsonSchemaEditor, OnLaunchMarkdownEditor, OnLaunchScriptEditor,
         OnLaunchMessageEditor, OnMessagesRequested, OnSearchProcessModels,
         OnServiceTasksRequested])"

definition importDepsOf :: "props \<Rightarrow> st \<Rightarrow> importDeps" where
  "importDepsOf p snap =
     (diagramType p, diagramXMLString snap, diagramModelerState snap,
      map_of (host p) OnCallActivityOverlayClick,
      (case tasks p of None \<Rightarrow> None | Some ts \<Rightarrow> Some (tasksRef p)))"

definition getXmlDepsOf :: "props \<Rightarrow> st \<Rightarrow> getXmlDeps" where
  "getXmlDepsOf p snap =
     (diagramModelerState snap, diagramType p, diagramXML p, fileName p,
      performingXmlUpdates snap, processModelId p, url p)"

text \<open>
  What React keeps between renders: the dependencies each effect last ran with
  (\<open>None\<close> before the first run) and the cleanup the import effect last returned (the
  engine it will destroy).
\<close>

record react =
  lastCreate :: "createDeps option"
  lastImport :: "importDeps option"
  lastGetXml :: "getXmlDeps option"
  importCleanup :: "nat option"

definition runCleanup :: "nat option \<Rightarrow> st \<Rightarrow> st" where
  "runCleanup c s = (case c of None \<Rightarrow> s | Some m \<Rightarrow> emit (Destroy m) s)"

text \<open>
  One render with props \<open>p\<close> and the commit of its effects. An effect runs when its
  dependencies differ from those of its last run. React first runs the cleanups of the
  effects that will run again, then the effects in the order of the source; each reads
  the state of this render, and what it sets shows in the next one.
\<close>

definition commit :: "engine \<Rightarrow> props \<Rightarrow> st \<times> react \<Rightarrow> st \<times> react" where
  "commit eng p c =
     (let snap = fst c; r = snd c;
          runCreate = (lastCreate r \<noteq> Some (createDepsOf p));
          runImport = (lastImport r \<noteq> Some (importDepsOf p snap));
          runGetXml = (lastGetXml r \<noteq> Some (getXmlDepsOf p snap));
          s1 = (if runImport then runCleanup (importCleanup r) snap else snap);
          s2 = (if runCreate then createEffect p s1 else s1);
          i = (if runImport then importEffect eng p snap s2 else (s2, importCleanup r));
          s4 = (if runGetXml then getXmlEffect p snap (fst i) else fst i)
      in (s4,
          \<lparr>lastCreate = Some (createDepsOf p),
           lastImport = Some (importDepsOf p snap),
           lastGetXml = Some (getXmlDepsOf p snap),
           importCleanup = snd i\<rparr>))"

definition unmount :: "st \<times> react \<Rightarrow> st \<times> react" where
  "unmount c = (runCleanup (importCleanup (snd c)) (fst c), (snd c)\<lparr>importCleanup := None\<rparr>)"

text \<open>
  What can happen to a mounted component: React renders it (with new props, or again
  after a state change); the engine fires an event; the user clicks the overlay of a
  task; a fetch or a backend call comes back. An exception that leaves a listener is
  the engine's to deal with; the trace notes it.
\<close>

datatype input =
    Render props
  | Fire nat string event
  | OverlayClick task
  | FetchResolved texthandler string string
  | FetchRejected string
  | BackendSuccess string

fun step :: "engine \<Rightarrow> input \<Rightarrow> st \<times> react \<Rightarrow> st \<times> react" where
  "step eng (Render p) c = commit eng p c"
| "step eng (Fire m name ev) c =
     (case fire eng m name ev (fst c) of
        Inl (JsError message, s) \<Rightarrow> (emit (Uncaught message) s, snd c)
      | Inr s \<Rightarrow> (s, snd c))"
| "step eng (OverlayClick t) c = (overlayClick t (fst c), snd c)"
| "step eng (FetchResolved h token text) c = (fetchResolved h token text (fst c), snd c)"
| "step eng (FetchRejected err) c = (handleError err (fst c), snd c)"
| "step eng (BackendSuccess file_contents) c =
     (setDiagramXMLStringFromResponseJson file_contents (fst c), snd c)"

definition run :: "engine \<Rightarrow> input list \<Rightarrow> st \<times> react \<Rightarrow> st \<times> react" where
  "run eng inputs c = fold (step eng) inputs c"

text \<open>The component before its first render.\<close>

definition initial :: "st \<times> react" where
  "initial =
     (\<lparr>diagramXMLString = [], diagramModelerState = None, performingXmlUpdates = False,
       trace = [], listeners = [], moddle = [], nextObject = 0\<rparr>,
      \<lparr>lastCreate = None, lastImport = None, lastGetXml = None, importCleanup = None\<rparr>)"

section \<open>The find-by-id page\<close>

text \<open>
  The two \<^verbatim>\<open>useState\<close> cells of \<^verbatim>\<open>ProcessInstanceFindById\<close> and the paths it has
  asked the backend for. \<^verbatim>\<open>isInteger\<close> is a helper that is not in these files: a
  parameter.
\<close>

record findState =
  processInstanceId :: string
  processInstanceIdValid :: bool
  backendCalls :: "string list"

definition findInitial :: findState where
  "findInitial = \<lparr>processInstanceId = [], processInstanceIdValid = True, backendCalls = []\<rparr>"

text \<open>Both tests read the state of the render the handler belongs to.\<close>

definition handleFormSubmission :: "findState \<Rightarrow> findState" where
  "handleFormSubmission s =
     (let s1 = (if processInstanceId s = [] then s\<lparr>processInstanceIdValid := False\<rparr> else s) in
      if processInstanceId s \<noteq> [] \<and> processInstanceIdValid s
      then s1\<lparr>backendCalls :=
                backendCalls s1 @ [''/process-instances/find-by-id/'' @ processInstanceId s]\<rparr>
      else s1)"

definition handleProcessInstanceIdChange ::
    "(string \<Rightarrow> bool) \<Rightarrow> string \<Rightarrow> findState \<Rightarrow> findState" where
  "handleProcessInstanceIdChange isInteger v s =
     s\<lparr>processInstanceIdValid := isInteger v, processInstanceId := v\<rparr>"

datatype findInput = Change string | Submit

fun findStep :: "(string \<Rightarrow> bool) \<Rightarrow> findInput \<Rightarrow> findState \<Rightarrow> findState" where
  "findStep isInteger (Change v) s = handleProcessInstanceIdChange isInteger v s"
| "findStep isInteger Submit s = handleFormSubmission s"

definition findRun :: "(string \<Rightarrow> bool) \<Rightarrow> findInput list \<Rightarrow> findState" where
  "findRun isInteger inputs = fold (findStep isInteger) inputs findInitial"

section \<open>Vocabulary of the statements\<close>

text \<open>The state a call ended in, whether it returned or threw.\<close>

definition final :: "result \<Rightarrow> st" where
  "final r = (case r of Inl (e, s) \<Rightarrow> s | Inr s \<Rightarrow> s)"

subsection \<open>A concrete diagram, for the instances\<close>

text \<open>
  A read-only view of a process \<^verbatim>\<open>Process_main\<close>. The engine has no node
  \<^verbatim>\<open>Task_gone\<close> and none for \<^verbatim>\<open>Call_gone\<close>: it answers both with the message of a
  missing node.
\<close>

definition exampleEngine :: engine where
  "exampleEngine =
     \<lparr>getActiveViewer = (\<lambda>m. Some m),
      getBpmnProcessIdentifiers = (\<lambda>m. [''Process_main'']),
      addMarker = (\<lambda>m i k. if i = ''Task_gone'' then Some missingNodeMessage else None),
      overlaysAdd = (\<lambda>m i. if i = ''Call_gone'' then Some missingNodeMessage else None)\<rparr>"

definition mkTask :: "string \<Rightarrow> string \<Rightarrow> string \<Rightarrow> string \<Rightarrow> task" where
  "mkTask i pd ty st =
     \<lparr>bpmn_identifier = i, bpmn_process_definition_identifier = pd, state = st, typename = ty\<rparr>"

definition exampleTasks :: "task list" where
  "exampleTasks =
     [mkTask ''Task_1'' ''Process_main'' ''ScriptTask'' ''COMPLETED'',
      mkTask ''Task_gone'' ''Process_main'' ''ManualTask'' ''READY'',
      mkTask ''Task_2'' ''Process_main'' ''UserTask'' ''ERROR'',
      mkTask ''EndJoin_3'' ''Process_main'' ''_EndJoin'' ''COMPLETED'',
      mkTask ''Call_1'' ''Process_main'' ''CallActivity'' ''STARTED'',
      mkTask ''Task_sub'' ''Process_sub'' ''ScriptTask'' ''COMPLETED'',
      mkTask ''Call_2'' ''Process_main'' ''CallActivity'' ''FUTURE'']"

definition exampleProps :: props where
  "exampleProps =
     \<lparr>diagramType = ''readonly'', diagramXML = Some ''<definitions/>'', fileName = None,
      url = None, processModelId = ''group/model'', tasks = Some exampleTasks, tasksRef = 0,
      host = [(OnCallActivityOverlayClick, 1)]\<rparr>"

definition exampleEvent :: event where
  "exampleEvent =
     \<lparr>ev_error = None, ev_element = ''Task_1'', ev_script = ''x = 1'',
      ev_scriptType = ''bpmn:script'', ev_value = ''text'', ev_processId = ''Process_sub'',
      ev_references = None\<rparr>"

subsection \<open>What the pass does for one task\<close>

text \<open>
  The calls that reach the engine for one task when the engine accepts them: the
  reading of the specification that the pass is compared with.
\<close>

definition expectedMarker :: "engine \<Rightarrow> nat \<Rightarrow> string list \<Rightarrow> task \<Rightarrow> call list" where
  "expectedMarker eng canvas ids t =
     (if className (state t) \<noteq> [] \<and> checkTaskCanBeHighlighted (bpmn_identifier t) \<and>
         bpmn_process_definition_identifier t \<in> set ids \<and>
         addMarker eng canvas (bpmn_identifier t) (className (state t)) = None
      then [AddMarker canvas (bpmn_identifier t) (className (state t))] else [])"

definition expectedOverlay :: "props \<Rightarrow> engine \<Rightarrow> nat option \<Rightarrow> string list \<Rightarrow> task \<Rightarrow> call list" where
  "expectedOverlay p eng dms ids t =
     (case dms of
        None \<Rightarrow> []
      | Some m \<Rightarrow>
          if typename t = ''CallActivity'' \<and> state t \<notin> set [''FUTURE'', ''LIKELY'', ''MAYBE''] \<and>
             supplied p OnCallActivityOverlayClick \<and> diagramType p = ''readonly'' \<and>
             bpmn_process_definition_identifier t \<in> set ids \<and>
             overlaysAdd eng m (bpmn_identifier t) = None
          then [OverlaysAdd m (bpmn_identifier t) t] else [])"

text \<open>
  An engine whose failures are not those of a missing node: it has no memory left for
  the marker of \<^verbatim>\<open>Task_2\<close> and rejects the overlay of \<^verbatim>\<open>Call_1\<close>.
\<close>

definition brokenEngine :: engine where
  "brokenEngine =
     exampleEngine
       \<lparr>addMarker := (\<lambda>m i k. if i = ''Task_2'' then Some ''out of memory'' else None),
        overlaysAdd := (\<lambda>m i. if i = ''Call_1'' then Some ''invalid element specified'' else None)\<rparr>"

subsection \<open>What a listener can change\<close>

text \<open>The calls that create an engine, load a document into it or destroy it.\<close>

fun lifeCall :: "call \<Rightarrow> bool" where
  "lifeCall (NewBpmnModeler m) = True"
| "lifeCall (NewDmnModeler m) = True"
| "lifeCall (NewBpmnViewer m) = True"
| "lifeCall (ImportXML m x) = True"
| "lifeCall (Destroy m) = True"
| "lifeCall c = False"

text \<open>What a listener may change: it appends calls, may set the guard, may store objects.\<close>

definition touched :: "st \<Rightarrow> call list \<Rightarrow> bool \<Rightarrow> ((nat \<times> string) \<times> moddle_elem) list \<Rightarrow> st" where
  "touched s xs b ys =
     s\<lparr>trace := trace s @ xs, performingXmlUpdates := (performingXmlUpdates s \<or> b),
       moddle := ys @ moddle s\<rparr>"

subsection \<open>The find-by-id page\<close>

text \<open>
  The text of the most recent change of the input field (empty before the first), and
  a validation to run the page with: digits only.
\<close>

definition lastChange :: "findInput list \<Rightarrow> string" where
  "lastChange inputs = fold (\<lambda>i v. case i of Change w \<Rightarrow> w | Submit \<Rightarrow> v) inputs []"

definition digitsOnly :: "string \<Rightarrow> bool" where
  "digitsOnly x = (x \<noteq> [] \<and> list_all (\<lambda>c. c \<in> set ''0123456789'') x)"

subsection \<open>Imports and destructions in a trace\<close>

text \<open>
  The engines that documents were imported into, and the engines that were destroyed,
  each in the order of the calls; and the engine a cleanup function is still to
  destroy.
\<close>

fun importTarget :: "call \<Rightarrow> nat list" where
  "importTarget (ImportXML m x) = [m]"
| "importTarget c = []"

fun destroyTarget :: "call \<Rightarrow> nat list" where
  "destroyTarget (Destroy m) = [m]"
| "destroyTarget c = []"

definition imported :: "call list \<Rightarrow> nat list" where
  "imported tr = concat (map importTarget tr)"

definition destroyed :: "call list \<Rightarrow> nat list" where
  "destroyed tr = concat (map destroyTarget tr)"

definition pending :: "nat option \<Rightarrow> nat list" where
  "pending c = (case c of None \<Rightarrow> [] | Some m \<Rightarrow> [m])"

subsection \<open>An editable diagram, for the instances\<close>

text \<open>An editable process diagram whose host supplies the sub-editor callbacks.\<close>

definition editorProps :: props where
  "editorProps =
     exampleProps
       \<lparr>diagramType := ''bpmn'', tasks := None,
        host := [(OnLaunchScriptEditor, 1), (OnLaunchMarkdownEditor, 2), (OnLaunchBpmnEditor, 3),
                 (OnLaunchJsonSchemaEditor, 4), (OnLaunchDmnEditor, 5), (OnLaunchMessageEditor, 6),
                 (OnJsonSchemaFilesRequested, 7), (OnServiceTasksRequested, 8)]\<rparr>"

subsection \<open>The two listeners for the JSON schema files\<close>

text \<open>
  The two listeners that the effect registers under
  \<^verbatim>\<open>spiff.json_schema_files.requested\<close> on engine \<open>m\<close>, in a closure over props
  \<open>p\<close>; what they forward; the listeners of a list that are registered under that name
  on \<open>m\<close>; and the states in which these are none or exactly the two, every listener
  is on an engine that exists, and so is the handle.
\<close>

definition jsonSchemaFilesRequested :: string where
  "jsonSchemaFilesRequested = ''spiff.json_schema_files.requested''"

definition firstForwarder :: "nat \<Rightarrow> props \<Rightarrow> subscription" where
  "firstForwarder m p =
     \<lparr>sub_target = m, sub_name = jsonSchemaFilesRequested,
      sub_handler = HJsonSchemaFilesRequested, sub_props = p\<rparr>"

definition secondForwarder :: "nat \<Rightarrow> props \<Rightarrow> subscription" where
  "secondForwarder m p =
     \<lparr>sub_target = m, sub_name = jsonSchemaFilesRequested,
      sub_handler = HJsonSchemaFilesRequestedAgain, sub_props = p\<rparr>"

definition forwardedToHost :: "props \<Rightarrow> event \<Rightarrow> call list" where
  "forwardedToHost p ev =
     (if supplied p OnJsonSchemaFilesRequested
      then [HostCall OnJsonSchemaFilesRequested [AEvent ev]] else []) @
     (if supplied p OnServiceTasksRequested
      then [HostCall OnServiceTasksRequested [AEvent ev]] else [])"

definition onJson :: "nat \<Rightarrow> subscription list \<Rightarrow> subscription list" where
  "onJson m ls = filter (\<lambda>l. sub_target l = m \<and> sub_name l = jsonSchemaFilesRequested) ls"

definition wired :: "st \<Rightarrow> bool" where
  "wired s =
     ((\<forall>l \<in> set (listeners s). sub_target l < nextObject s) \<and>
      (\<forall>m. diagramModelerState s = Some m \<longrightarrow> m < nextObject s) \<and>
      (\<forall>m. onJson m (listeners s) = [] \<or>
           (\<exists>p. onJson m (listeners s) = [firstForwarder m p, secondForwarder m p])))"

subsection \<open>Restoring references\<close>

text \<open>
  The place a reference was dropped from: the owning object and the property. And the
  states in which every listener for the end of parsing was registered by an import
  whose diagram type is not \<^verbatim>\<open>dmn\<close>.
\<close>

definition slot :: "reference \<Rightarrow> nat \<times> string" where
  "slot r = (ref_element r, ref_property r)"

definition parseCompleteOnlyOffDmn :: "st \<Rightarrow> bool" where
  "parseCompleteOnlyOffDmn s =
     (\<forall>l \<in> set (listeners s). sub_handler l = HParseComplete \<longrightarrow> diagramType (sub_props l) \<noteq> ''dmn'')"

text \<open>
  A parse that dropped the two loop references of one multi-instance task (object 7)
  and a reference of another kind; and a decision-table editor.
\<close>

definition exampleReferences :: "reference list" where
  "exampleReferences =
     [\<lparr>ref_element = 7, ref_property = ''bpmn:loopDataInputRef'', ref_id = Some ''input_items'',
       ref_name = None\<rparr>,
      \<lparr>ref_element = 9, ref_property = ''bpmn:sourceRef'', ref_id = Some ''Task_x'',
       ref_name = None\<rparr>,
      \<lparr>ref_element = 7, ref_property = ''bpmn:loopDataOutputRef'', ref_id = Some ''output_items'',
       ref_name = None\<rparr>]"

definition parsedEvent :: event where
  "parsedEvent = exampleEvent\<lparr>ev_references := Some exampleReferences\<rparr>"

definition dmnProps :: props where
  "dmnProps = editorProps\<lparr>diagramType := ''dmn''\<rparr>"

section \<open>Basic facts\<close>

lemma final_Inl [simp]: "final (Inl (e, s)) = s"
  by (simp add: final_def)

lemma final_Inr [simp]: "final (Inr s) = s"
  by (simp add: final_def)

lemma trace_emit [simp]: "trace (emit c s) = trace s @ [c]"
  by (simp add: emit_def)

lemma js_match_sublist: "js_match pat s = sublist pat s"
  by (induction s) (auto simp: sublist_Cons_right)

lemma highlight_marker:
  assumes "AddMarker c i k \<in> set (trace (final (highlightBpmnIoElement eng canvas t cls ids s)))"
    and "AddMarker c i k \<notin> set (trace s)"
  shows "c = canvas \<and> i = bpmn_identifier t \<and> k = cls \<and>
         checkTaskCanBeHighlighted (bpmn_identifier t) \<and>
         bpmn_process_definition_identifier t \<in> set ids"
  using assms by (auto simp: highlightBpmnIoElement_def split: if_splits option.splits)

lemma overlay_no_marker:
  "(AddMarker c i k \<in> set (trace (final (addOverlayOnCallActivity p eng dms t ids s)))) =
   (AddMarker c i k \<in> set (trace s))"
  by (auto simp: addOverlayOnCallActivity_def split: if_splits option.splits)

lemma forEachBody_marker:
  assumes "AddMarker c i k \<in> set (trace (final (forEachBody p eng dms canvas ids t s)))"
    and "AddMarker c i k \<notin> set (trace s)"
  shows "c = canvas \<and> i = bpmn_identifier t \<and> k = className (state t) \<and> k \<noteq> [] \<and>
         checkTaskCanBeHighlighted (bpmn_identifier t) \<and>
         bpmn_process_definition_identifier t \<in> set ids"
proof (cases "className (state t) = []")
  case True
  with assms show ?thesis
    by (auto simp: forEachBody_def overlay_no_marker split: if_splits)
next
  case False
  let ?h = "highlightBpmnIoElement eng canvas t (className (state t)) ids s"
  have "AddMarker c i k \<in> set (trace (final ?h))"
    using assms(1) False
    by (cases ?h) (auto simp: forEachBody_def overlay_no_marker split: if_splits)
  from highlight_marker [OF this assms(2)] False show ?thesis by simp
qed

lemma forEachTask_marker:
  assumes "AddMarker c i k \<in> set (trace (final (forEachTask p eng dms canvas ids ts s)))"
    and "AddMarker c i k \<notin> set (trace s)"
  shows "\<exists>t \<in> set ts. c = canvas \<and> i = bpmn_identifier t \<and> k = className (state t) \<and> k \<noteq> [] \<and>
         checkTaskCanBeHighlighted (bpmn_identifier t) \<and>
         bpmn_process_definition_identifier t \<in> set ids"
  using assms
proof (induction ts arbitrary: s)
  case Nil
  then show ?case by simp
next
  case (Cons t ts)
  let ?b = "forEachBody p eng dms canvas ids t s"
  show ?case
  proof (cases "AddMarker c i k \<in> set (trace (final ?b))")
    case True
    from forEachBody_marker [OF True Cons.prems(2)] show ?thesis by auto
  next
    case False
    show ?thesis
    proof (cases ?b)
      case (Inl e)
      with Cons.prems(1) False show ?thesis by (cases e) simp
    next
      case (Inr s1)
      with Cons.prems(1) False Cons.IH [of s1] show ?thesis by auto
    qed
  qed
qed

lemma highlight_grows:
  "\<exists>xs. trace (final (highlightBpmnIoElement eng canvas t cls ids s)) = trace s @ xs"
  by (auto simp: highlightBpmnIoElement_def split: option.splits)

lemma overlay_grows:
  "\<exists>xs. trace (final (addOverlayOnCallActivity p eng dms t ids s)) = trace s @ xs"
  by (auto simp: addOverlayOnCallActivity_def split: option.splits)

lemma forEachBody_grows:
  "\<exists>xs. trace (final (forEachBody p eng dms canvas ids t s)) = trace s @ xs"
proof -
  let ?h = "if className (state t) \<noteq> []
            then highlightBpmnIoElement eng canvas t (className (state t)) ids s else Inr s"
  have "\<exists>xs. trace (final ?h) = trace s @ xs"
    using highlight_grows [of eng canvas t "className (state t)" ids s]
    by (cases "className (state t) = []") auto
  then obtain xs where xs: "trace (final ?h) = trace s @ xs" ..
  show ?thesis
  proof (cases ?h)
    case (Inl e)
    then have "forEachBody p eng dms canvas ids t s = ?h"
      by (simp add: forEachBody_def)
    with xs show ?thesis by metis
  next
    case (Inr s1)
    then have s1: "trace s1 = trace s @ xs" using xs by simp
    obtain ys where "trace (final (addOverlayOnCallActivity p eng dms t ids s1)) = trace s1 @ ys"
      using overlay_grows by blast
    with Inr s1 show ?thesis
      by (auto simp: forEachBody_def)
  qed
qed

lemma forEachTask_grows:
  "\<exists>xs. trace (final (forEachTask p eng dms canvas ids ts s)) = trace s @ xs"
proof (induction ts arbitrary: s)
  case Nil
  then show ?case by simp
next
  case (Cons t ts)
  obtain xs where xs: "trace (final (forEachBody p eng dms canvas ids t s)) = trace s @ xs"
    using forEachBody_grows by blast
  show ?case
  proof (cases "forEachBody p eng dms canvas ids t s")
    case (Inl e)
    with xs show ?thesis by (cases e) auto
  next
    case (Inr s1)
    obtain ys where "trace (final (forEachTask p eng dms canvas ids ts s1)) = trace s1 @ ys"
      using Cons.IH by blast
    with Inr xs show ?thesis by auto
  qed
qed

lemma forEachBody_applies:
  assumes "forEachBody p eng dms canvas ids t s = Inr s1"
    and "className (state t) \<noteq> []"
    and "checkTaskCanBeHighlighted (bpmn_identifier t)"
    and "bpmn_process_definition_identifier t \<in> set ids"
    and "addMarker eng canvas (bpmn_identifier t) (className (state t)) = None"
  shows "AddMarker canvas (bpmn_identifier t) (className (state t)) \<in> set (trace s1)"
proof -
  let ?s0 = "emit (AddMarker canvas (bpmn_identifier t) (className (state t))) s"
  have h: "highlightBpmnIoElement eng canvas t (className (state t)) ids s = Inr ?s0"
    using assms(3-5) by (simp add: highlightBpmnIoElement_def)
  obtain ys where ys: "trace (final (addOverlayOnCallActivity p eng dms t ids ?s0)) = trace ?s0 @ ys"
    using overlay_grows by blast
  have "trace s1 = trace ?s0 \<or> trace s1 = trace ?s0 @ ys"
    using assms(1,2) h ys by (auto simp: forEachBody_def split: if_splits)
  then show ?thesis by auto
qed

lemma forEachTask_applies:
  assumes "forEachTask p eng dms canvas ids ts s = Inr s'"
    and "t \<in> set ts"
    and "className (state t) \<noteq> []"
    and "checkTaskCanBeHighlighted (bpmn_identifier t)"
    and "bpmn_process_definition_identifier t \<in> set ids"
    and "addMarker eng canvas (bpmn_identifier t) (className (state t)) = None"
  shows "AddMarker canvas (bpmn_identifier t) (className (state t)) \<in> set (trace s')"
  using assms(1,2)
proof (induction ts arbitrary: s)
  case Nil
  then show ?case by simp
next
  case (Cons u us)
  from Cons.prems(1) obtain s1 where
    b: "forEachBody p eng dms canvas ids u s = Inr s1" and
    r: "forEachTask p eng dms canvas ids us s1 = Inr s'"
    by (auto split: sum.splits)
  show ?case
  proof (cases "t = u")
    case True
    with b assms(3-6) have "AddMarker canvas (bpmn_identifier t) (className (state t)) \<in> set (trace s1)"
      using forEachBody_applies by blast
    moreover obtain xs where "trace s' = trace s1 @ xs"
      using forEachTask_grows [of p eng dms canvas ids us s1] r by auto
    ultimately show ?thesis by simp
  next
    case False
    with Cons.prems(2) have "t \<in> set us" by simp
    from Cons.IH [OF r this] show ?thesis .
  qed
qed


section \<open>A failed import\<close>

text \<open>
  C7. When the \<^verbatim>\<open>import.done\<close> event carries an error, \<^verbatim>\<open>onImportDone\<close> returns
  normally (no exception reaches the engine or the host), and all it has done is log
  the error: the trace gains the one \<^verbatim>\<open>console.error\<close> entry, so the viewport is not
  fitted, no marker is added and no overlay attached, and the state cells are as
  before.
\<close>

theorem import_error_only_logged:
  assumes "ev_error ev = Some err"
  shows "onImportDone p eng dms ev s = Inr (s\<lparr>trace := trace s @ [ConsoleError err]\<rparr>)"
  using assms by (simp add: onImportDone_def handleError_def emit_def)

theorem import_error_only_logged_witness:
  "ev_error (exampleEvent\<lparr>ev_error := Some ''unparsable content''\<rparr>) = Some ''unparsable content'' \<and>
   onImportDone exampleProps exampleEngine (Some 0)
       (exampleEvent\<lparr>ev_error := Some ''unparsable content''\<rparr>) (fst initial) =
     Inr ((fst initial)\<lparr>trace := [ConsoleError ''unparsable content'']\<rparr>)"
  using import_error_only_logged
          [of "exampleEvent\<lparr>ev_error := Some ''unparsable content''\<rparr>" "''unparsable content''"
              exampleProps exampleEngine "Some 0" "fst initial"]
  by (simp add: initial_def)

section \<open>The highlight pass\<close>

lemma className_other:
  "taskState \<notin> {''COMPLETED'', ''READY'', ''WAITING'', ''STARTED'', ''CANCELLED'', ''ERROR''} \<Longrightarrow>
   className taskState = []"
  by (simp add: className_def)

lemma checkTask_sublist:
  "checkTaskCanBeHighlighted i =
     (i \<notin> {''Root'', ''Start'', ''End''} \<and> \<not> sublist ''EndJoin'' i \<and>
      \<not> sublist ''BoundaryEventParent'' i \<and> \<not> sublist ''BoundaryEventJoin'' i \<and>
      \<not> sublist ''BoundaryEventSplit'' i)"
  by (simp add: checkTaskCanBeHighlighted_def taskSpecsThatCannotBeHighlighted_def js_match_sublist)

lemma onImportDone_marker:
  assumes "AddMarker c j k \<in> set (trace (final (onImportDone p eng dms ev s)))"
    and "AddMarker c j k \<notin> set (trace s)"
  shows "\<exists>ts t. tasks p = Some ts \<and> t \<in> set ts \<and> ev_error ev = None \<and>
           j = bpmn_identifier t \<and> k = className (state t) \<and> k \<noteq> [] \<and>
           checkTaskCanBeHighlighted j \<and>
           bpmn_process_definition_identifier t \<in> set (getBpmnProcessIdentifiers eng c)"
proof (cases "ev_error ev")
  case (Some err)
  with assms show ?thesis by (simp add: onImportDone_def handleError_def)
next
  case None
  let ?m = "if diagramType p = ''dmn''
            then (case dms of None \<Rightarrow> None | Some m \<Rightarrow> getActiveViewer eng m) else dms"
  show ?thesis
  proof (cases ?m)
    case nm: None
    with None assms show ?thesis by (simp add: onImportDone_def)
  next
    case (Some modeler)
    show ?thesis
    proof (cases "tasks p")
      case nt: None
      with None Some assms show ?thesis by (simp add: onImportDone_def)
    next
      case st: (Some ts)
      let ?s0 = "emit (CanvasZoom modeler) s"
      have r: "onImportDone p eng dms ev s =
                 forEachTask p eng dms modeler (getBpmnProcessIdentifiers eng modeler) ts ?s0"
        using None Some st by (simp add: onImportDone_def)
      have "AddMarker c j k \<notin> set (trace ?s0)" using assms(2) by simp
      from forEachTask_marker [OF assms(1) [unfolded r] this]
      show ?thesis using st None by auto
    qed
  qed
qed

lemma onImportDone_applies:
  assumes "onImportDone p eng dms ev s = Inr s'"
    and "ev_error ev = None"
    and "(if diagramType p = ''dmn''
          then (case dms of None \<Rightarrow> None | Some m \<Rightarrow> getActiveViewer eng m) else dms) = Some c"
    and "tasks p = Some ts" and "t \<in> set ts"
    and "className (state t) \<noteq> []"
    and "checkTaskCanBeHighlighted (bpmn_identifier t)"
    and "bpmn_process_definition_identifier t \<in> set (getBpmnProcessIdentifiers eng c)"
    and "addMarker eng c (bpmn_identifier t) (className (state t)) = None"
  shows "AddMarker c (bpmn_identifier t) (className (state t)) \<in> set (trace s')"
proof -
  have "forEachTask p eng dms c (getBpmnProcessIdentifiers eng c) ts (emit (CanvasZoom c) s) = Inr s'"
    using assms(1-4) by (simp add: onImportDone_def)
  from forEachTask_applies [OF this assms(5-9)] show ?thesis .
qed

lemma example_pass:
  "onImportDone exampleProps exampleEngine (Some 0) exampleEvent (fst initial) =
     Inr ((fst initial)\<lparr>trace :=
       [CanvasZoom 0,
        AddMarker 0 ''Task_1'' ''completed-task-highlight'',
        AddMarker 0 ''Task_2'' ''errored-task-highlight'',
        AddMarker 0 ''Call_1'' ''active-task-highlight'',
        OverlaysAdd 0 ''Call_1'' (mkTask ''Call_1'' ''Process_main'' ''CallActivity'' ''STARTED'')]\<rparr>)"
  by code_simp

text \<open>
  C1. The class chosen for a task's status: \<^verbatim>\<open>COMPLETED\<close> gets the completed class,
  \<^verbatim>\<open>READY\<close>, \<^verbatim>\<open>WAITING\<close> and \<^verbatim>\<open>STARTED\<close> the active one, \<^verbatim>\<open>CANCELLED\<close> the
  cancelled one, \<^verbatim>\<open>ERROR\<close> the errored one, and every other status none. A task
  identifier can be highlighted exactly when it is none of \<^verbatim>\<open>Root\<close>, \<^verbatim>\<open>Start\<close>,
  \<^verbatim>\<open>End\<close> and contains none of \<^verbatim>\<open>EndJoin\<close>, \<^verbatim>\<open>BoundaryEventParent\<close>,
  \<^verbatim>\<open>BoundaryEventJoin\<close>, \<^verbatim>\<open>BoundaryEventSplit\<close>. Every marker that
  \<^verbatim>\<open>onImportDone\<close> adds belongs to a task of the list, carries the class of that
  task's status, and the task's identifier can be highlighted and its process
  definition is among the identifiers of the diagram's root; the import had no error.
  Conversely, when the pass returns, each such task whose marker the engine accepts
  has it.
\<close>

theorem status_marker_mapping:
  "className ''COMPLETED'' = ''completed-task-highlight'' \<and>
   className ''READY'' = ''active-task-highlight'' \<and>
   className ''WAITING'' = ''active-task-highlight'' \<and>
   className ''STARTED'' = ''active-task-highlight'' \<and>
   className ''CANCELLED'' = ''cancelled-task-highlight'' \<and>
   className ''ERROR'' = ''errored-task-highlight'' \<and>
   (taskState \<notin> {''COMPLETED'', ''READY'', ''WAITING'', ''STARTED'', ''CANCELLED'', ''ERROR''}
      \<longrightarrow> className taskState = []) \<and>
   (checkTaskCanBeHighlighted i =
      (i \<notin> {''Root'', ''Start'', ''End''} \<and> \<not> sublist ''EndJoin'' i \<and>
       \<not> sublist ''BoundaryEventParent'' i \<and> \<not> sublist ''BoundaryEventJoin'' i \<and>
       \<not> sublist ''BoundaryEventSplit'' i)) \<and>
   (AddMarker c j k \<in> set (trace (final (onImportDone p eng dms ev s))) \<longrightarrow>
    AddMarker c j k \<notin> set (trace s) \<longrightarrow>
      (\<exists>ts u. tasks p = Some ts \<and> u \<in> set ts \<and> ev_error ev = None \<and>
         j = bpmn_identifier u \<and> k = className (state u) \<and> k \<noteq> [] \<and>
         checkTaskCanBeHighlighted j \<and>
         bpmn_process_definition_identifier u \<in> set (getBpmnProcessIdentifiers eng c))) \<and>
   (onImportDone p eng dms ev s = Inr s' \<longrightarrow> ev_error ev = None \<longrightarrow>
    (if diagramType p = ''dmn''
     then (case dms of None \<Rightarrow> None | Some m \<Rightarrow> getActiveViewer eng m) else dms) = Some c \<longrightarrow>
    tasks p = Some ts \<longrightarrow> t \<in> set ts \<longrightarrow> className (state t) \<noteq> [] \<longrightarrow>
    checkTaskCanBeHighlighted (bpmn_identifier t) \<longrightarrow>
    bpmn_process_definition_identifier t \<in> set (getBpmnProcessIdentifiers eng c) \<longrightarrow>
    addMarker eng c (bpmn_identifier t) (className (state t)) = None \<longrightarrow>
      AddMarker c (bpmn_identifier t) (className (state t)) \<in> set (trace s'))"
proof (intro conjI impI)
  show "checkTaskCanBeHighlighted i =
      (i \<notin> {''Root'', ''Start'', ''End''} \<and> \<not> sublist ''EndJoin'' i \<and>
       \<not> sublist ''BoundaryEventParent'' i \<and> \<not> sublist ''BoundaryEventJoin'' i \<and>
       \<not> sublist ''BoundaryEventSplit'' i)"
    by (rule checkTask_sublist)
next
  assume "taskState \<notin> {''COMPLETED'', ''READY'', ''WAITING'', ''STARTED'', ''CANCELLED'', ''ERROR''}"
  then show "className taskState = []" by (rule className_other)
next
  assume "AddMarker c j k \<in> set (trace (final (onImportDone p eng dms ev s)))"
    and "AddMarker c j k \<notin> set (trace s)"
  then show "\<exists>ts u. tasks p = Some ts \<and> u \<in> set ts \<and> ev_error ev = None \<and>
         j = bpmn_identifier u \<and> k = className (state u) \<and> k \<noteq> [] \<and>
         checkTaskCanBeHighlighted j \<and>
         bpmn_process_definition_identifier u \<in> set (getBpmnProcessIdentifiers eng c)"
    by (rule onImportDone_marker)
next
  assume "onImportDone p eng dms ev s = Inr s'" "ev_error ev = None"
    "(if diagramType p = ''dmn''
     then (case dms of None \<Rightarrow> None | Some m \<Rightarrow> getActiveViewer eng m) else dms) = Some c"
    "tasks p = Some ts" "t \<in> set ts" "className (state t) \<noteq> []"
    "checkTaskCanBeHighlighted (bpmn_identifier t)"
    "bpmn_process_definition_identifier t \<in> set (getBpmnProcessIdentifiers eng c)"
    "addMarker eng c (bpmn_identifier t) (className (state t)) = None"
  then show "AddMarker c (bpmn_identifier t) (className (state t)) \<in> set (trace s')"
    by (rule onImportDone_applies)
qed (simp_all add: className_def)

theorem status_marker_mapping_witness:
  "className ''FUTURE'' = [] \<and>
   \<not> checkTaskCanBeHighlighted ''EndJoin_3'' \<and>
   checkTaskCanBeHighlighted ''Task_1'' \<and>
   AddMarker 0 ''Task_1'' ''completed-task-highlight''
     \<in> set (trace (final (onImportDone exampleProps exampleEngine (Some 0) exampleEvent (fst initial)))) \<and>
   (\<exists>u \<in> set exampleTasks. bpmn_identifier u = ''Task_1'' \<and> state u = ''COMPLETED'' \<and>
      bpmn_process_definition_identifier u \<in> set (getBpmnProcessIdentifiers exampleEngine 0))"
proof -
  let ?r = "onImportDone exampleProps exampleEngine (Some 0) exampleEvent (fst initial)"
  let ?t = "mkTask ''Task_1'' ''Process_main'' ''ScriptTask'' ''COMPLETED''"
  note m = status_marker_mapping
             [of "''FUTURE''" "''EndJoin_3''" 0 "''Task_1''" "''completed-task-highlight''"
                 exampleProps exampleEngine "Some 0" exampleEvent "fst initial"
                 "final ?r" exampleTasks ?t]
  have a: "className ''FUTURE'' = []" using m by simp
  have b: "\<not> checkTaskCanBeHighlighted ''EndJoin_3''" using m by simp
  have c: "checkTaskCanBeHighlighted ''Task_1''" by code_simp
  have d: "AddMarker 0 ''Task_1'' ''completed-task-highlight'' \<in> set (trace (final ?r))"
    by (simp add: example_pass)
  have e: "AddMarker 0 ''Task_1'' ''completed-task-highlight'' \<notin> set (trace (fst initial))"
    by (simp add: initial_def)
  from m d e obtain ts u where
    "tasks exampleProps = Some ts" "u \<in> set ts" "''Task_1'' = bpmn_identifier u"
    "''completed-task-highlight'' = className (state u)"
    "bpmn_process_definition_identifier u \<in> set (getBpmnProcessIdentifiers exampleEngine 0)"
    by blast
  then have "\<exists>u \<in> set exampleTasks. bpmn_identifier u = ''Task_1'' \<and> state u = ''COMPLETED'' \<and>
      bpmn_process_definition_identifier u \<in> set (getBpmnProcessIdentifiers exampleEngine 0)"
    by (auto simp: exampleProps_def className_def split: if_splits)
  with a b c d show ?thesis by simp
qed

section \<open>The drill-down overlay\<close>

lemma highlight_overlay:
  "(OverlaysAdd m j t \<in> set (trace (final (highlightBpmnIoElement eng canvas u cls ids s)))) =
   (OverlaysAdd m j t \<in> set (trace s))"
  by (auto simp: highlightBpmnIoElement_def split: if_splits option.splits)

lemma addOverlay_overlay:
  assumes "OverlaysAdd m j t \<in> set (trace (final (addOverlayOnCallActivity p eng dms u ids s)))"
    and "OverlaysAdd m j t \<notin> set (trace s)"
  shows "t = u \<and> j = bpmn_identifier u \<and> dms = Some m \<and> supplied p OnCallActivityOverlayClick \<and>
         diagramType p = ''readonly'' \<and> bpmn_process_definition_identifier u \<in> set ids"
  using assms by (auto simp: addOverlayOnCallActivity_def split: if_splits option.splits)

lemma forEachBody_overlay:
  assumes "OverlaysAdd m j t \<in> set (trace (final (forEachBody p eng dms canvas ids u s)))"
    and "OverlaysAdd m j t \<notin> set (trace s)"
  shows "t = u \<and> j = bpmn_identifier u \<and> dms = Some m \<and> supplied p OnCallActivityOverlayClick \<and>
         diagramType p = ''readonly'' \<and> bpmn_process_definition_identifier u \<in> set ids \<and>
         typename u = ''CallActivity'' \<and> state u \<notin> {''FUTURE'', ''LIKELY'', ''MAYBE''}"
proof -
  let ?h = "if className (state u) \<noteq> []
            then highlightBpmnIoElement eng canvas u (className (state u)) ids s else Inr s"
  have h: "OverlaysAdd m j t \<notin> set (trace (final ?h))"
    using assms(2) by (simp add: highlight_overlay)
  show ?thesis
  proof (cases ?h)
    case (Inl e)
    then have "forEachBody p eng dms canvas ids u s = ?h" by (simp add: forEachBody_def)
    with assms(1) h show ?thesis by simp
  next
    case (Inr s1)
    with h have n: "OverlaysAdd m j t \<notin> set (trace s1)" by simp
    show ?thesis
    proof (cases "typename u = ''CallActivity'' \<and> state u \<notin> set [''FUTURE'', ''LIKELY'', ''MAYBE'']")
      case True
      with Inr assms(1) have
        "OverlaysAdd m j t \<in> set (trace (final (addOverlayOnCallActivity p eng dms u ids s1)))"
        by (simp add: forEachBody_def)
      from addOverlay_overlay [OF this n] True show ?thesis by simp
    next
      case False
      with Inr assms(1) n show ?thesis by (auto simp: forEachBody_def)
    qed
  qed
qed

lemma forEachTask_overlay:
  assumes "OverlaysAdd m j t \<in> set (trace (final (forEachTask p eng dms canvas ids ts s)))"
    and "OverlaysAdd m j t \<notin> set (trace s)"
  shows "t \<in> set ts \<and> j = bpmn_identifier t \<and> dms = Some m \<and>
         supplied p OnCallActivityOverlayClick \<and> diagramType p = ''readonly'' \<and>
         bpmn_process_definition_identifier t \<in> set ids \<and>
         typename t = ''CallActivity'' \<and> state t \<notin> {''FUTURE'', ''LIKELY'', ''MAYBE''}"
  using assms
proof (induction ts arbitrary: s)
  case Nil
  then show ?case by simp
next
  case (Cons u us)
  let ?b = "forEachBody p eng dms canvas ids u s"
  show ?case
  proof (cases "OverlaysAdd m j t \<in> set (trace (final ?b))")
    case True
    from forEachBody_overlay [OF True Cons.prems(2)] show ?thesis by simp
  next
    case False
    show ?thesis
    proof (cases ?b)
      case (Inl e)
      with Cons.prems(1) False show ?thesis by (cases e) simp
    next
      case (Inr s1)
      with Cons.prems(1) False Cons.IH [of s1] show ?thesis by simp
    qed
  qed
qed

lemma onImportDone_overlay:
  assumes "OverlaysAdd m j t \<in> set (trace (final (onImportDone p eng dms ev s)))"
    and "OverlaysAdd m j t \<notin> set (trace s)"
  shows "typename t = ''CallActivity'' \<and> state t \<notin> {''FUTURE'', ''LIKELY'', ''MAYBE''} \<and>
         supplied p OnCallActivityOverlayClick \<and> diagramType p = ''readonly'' \<and>
         j = bpmn_identifier t \<and> dms = Some m \<and> ev_error ev = None \<and>
         (\<exists>ts. tasks p = Some ts \<and> t \<in> set ts)"
proof (cases "ev_error ev")
  case (Some err)
  with assms show ?thesis by (simp add: onImportDone_def handleError_def)
next
  case None
  let ?m = "if diagramType p = ''dmn''
            then (case dms of None \<Rightarrow> None | Some m \<Rightarrow> getActiveViewer eng m) else dms"
  show ?thesis
  proof (cases ?m)
    case nm: None
    with None assms show ?thesis by (simp add: onImportDone_def)
  next
    case (Some modeler)
    show ?thesis
    proof (cases "tasks p")
      case nt: None
      with None Some assms show ?thesis by (simp add: onImportDone_def)
    next
      case st: (Some ts)
      let ?s0 = "emit (CanvasZoom modeler) s"
      have r: "onImportDone p eng dms ev s =
                 forEachTask p eng dms modeler (getBpmnProcessIdentifiers eng modeler) ts ?s0"
        using None Some st by (simp add: onImportDone_def)
      have "OverlaysAdd m j t \<notin> set (trace ?s0)" using assms(2) by simp
      from forEachTask_overlay [OF assms(1) [unfolded r] this]
      show ?thesis using st None by auto
    qed
  qed
qed

text \<open>
  C6. Every overlay that \<^verbatim>\<open>onImportDone\<close> attaches belongs to a task of the list whose
  type is \<^verbatim>\<open>CallActivity\<close> and whose status is none of \<^verbatim>\<open>FUTURE\<close>, \<^verbatim>\<open>LIKELY\<close>,
  \<^verbatim>\<open>MAYBE\<close>; the host supplied \<^verbatim>\<open>onCallActivityOverlayClick\<close> and the diagram type
  is \<^verbatim>\<open>readonly\<close>. A click on the overlay calls the host's callback once, with the
  task, and then sets the document text to the empty string and the engine handle to
  \<^verbatim>\<open>null\<close>.
\<close>

theorem drilldown_overlay:
  "(OverlaysAdd m j t \<in> set (trace (final (onImportDone p eng dms ev s))) \<longrightarrow>
    OverlaysAdd m j t \<notin> set (trace s) \<longrightarrow>
      typename t = ''CallActivity'' \<and> state t \<notin> {''FUTURE'', ''LIKELY'', ''MAYBE''} \<and>
      supplied p OnCallActivityOverlayClick \<and> diagramType p = ''readonly'' \<and>
      j = bpmn_identifier t \<and> dms = Some m \<and> ev_error ev = None \<and>
      (\<exists>ts. tasks p = Some ts \<and> t \<in> set ts)) \<and>
   overlayClick t s =
     s\<lparr>trace := trace s @ [HostCall OnCallActivityOverlayClick [ATask t]],
       diagramXMLString := [], diagramModelerState := None\<rparr> \<and>
   fst (step eng (OverlayClick t) (s, r)) = overlayClick t s"
  using onImportDone_overlay [of m j t p eng dms ev s]
  by (simp add: overlayClick_def emit_def)

theorem drilldown_overlay_witness:
  "OverlaysAdd 0 ''Call_1'' (mkTask ''Call_1'' ''Process_main'' ''CallActivity'' ''STARTED'')
     \<in> set (trace (final (onImportDone exampleProps exampleEngine (Some 0) exampleEvent (fst initial)))) \<and>
   supplied exampleProps OnCallActivityOverlayClick \<and>
   diagramType exampleProps = ''readonly'' \<and>
   mkTask ''Call_1'' ''Process_main'' ''CallActivity'' ''STARTED'' \<in> set exampleTasks"
proof -
  let ?t = "mkTask ''Call_1'' ''Process_main'' ''CallActivity'' ''STARTED''"
  let ?r = "onImportDone exampleProps exampleEngine (Some 0) exampleEvent (fst initial)"
  have a: "OverlaysAdd 0 ''Call_1'' ?t \<in> set (trace (final ?r))"
    by (simp add: example_pass)
  have b: "OverlaysAdd 0 ''Call_1'' ?t \<notin> set (trace (fst initial))"
    by (simp add: initial_def)
  from drilldown_overlay [of 0 "''Call_1''" ?t exampleProps exampleEngine "Some 0" exampleEvent
                             "fst initial" "snd initial"] a b
  have "supplied exampleProps OnCallActivityOverlayClick \<and> diagramType exampleProps = ''readonly'' \<and>
        (\<exists>ts. tasks exampleProps = Some ts \<and> ?t \<in> set ts)"
    by blast
  with a show ?thesis by (auto simp: exampleProps_def)
qed

section \<open>Exceptions of the engine during the pass\<close>

lemma forEachBody_swallow:
  assumes "\<And>c i k msg. addMarker eng c i k = Some msg \<Longrightarrow> msg = missingNodeMessage"
    and "\<And>m i msg. overlaysAdd eng m i = Some msg \<Longrightarrow> msg = missingNodeMessage"
  shows "forEachBody p eng dms canvas ids t s =
           Inr (s\<lparr>trace := trace s @ expectedMarker eng canvas ids t @ expectedOverlay p eng dms ids t\<rparr>)"
proof -
  have h: "(if className (state t) \<noteq> []
            then highlightBpmnIoElement eng canvas t (className (state t)) ids s else Inr s) =
           Inr (s\<lparr>trace := trace s @ expectedMarker eng canvas ids t\<rparr>)"
    using assms(1) [of canvas "bpmn_identifier t" "className (state t)"]
    by (auto simp: highlightBpmnIoElement_def expectedMarker_def emit_def split: option.splits)
  have o: "\<And>s1. (if typename t = ''CallActivity'' \<and> state t \<notin> set [''FUTURE'', ''LIKELY'', ''MAYBE'']
             then addOverlayOnCallActivity p eng dms t ids s1 else Inr s1) =
           Inr (s1\<lparr>trace := trace s1 @ expectedOverlay p eng dms ids t\<rparr>)"
    using assms(2) [of _ "bpmn_identifier t"]
    by (auto simp: addOverlayOnCallActivity_def expectedOverlay_def emit_def split: option.splits)
  show ?thesis
    unfolding forEachBody_def h sum.case o by simp
qed

lemma forEachTask_swallow:
  assumes "\<And>c i k msg. addMarker eng c i k = Some msg \<Longrightarrow> msg = missingNodeMessage"
    and "\<And>m i msg. overlaysAdd eng m i = Some msg \<Longrightarrow> msg = missingNodeMessage"
  shows "forEachTask p eng dms canvas ids ts s =
           Inr (s\<lparr>trace := trace s @
                  concat (map (\<lambda>t. expectedMarker eng canvas ids t @ expectedOverlay p eng dms ids t) ts)\<rparr>)"
proof (induction ts arbitrary: s)
  case Nil
  show ?case by simp
next
  case (Cons t ts)
  show ?case
    by (simp add: forEachBody_swallow [OF assms] Cons.IH)
qed

text \<open>
  C8. Both \<^verbatim>\<open>catch\<close> blocks tell the failure of a missing node by the message of the
  exception, \<^verbatim>\<open>Cannot read properties of undefined (reading 'id')\<close>. When
  \<^verbatim>\<open>canvas.addMarker\<close> or \<^verbatim>\<open>overlays.add\<close> throws with that message, the function
  returns normally and nothing has changed; with any other message the exception
  leaves the function. So when the engine's only failures are those of missing
  nodes, the loop over the tasks runs to its end, and what reaches the engine is what
  each task calls for, in the order of the list; an exception that leaves the body for
  one task ends the loop, and the tasks after it are not visited.
\<close>

theorem missing_node_swallowed:
  "(addMarker eng c (bpmn_identifier t) k = Some missingNodeMessage \<longrightarrow>
      highlightBpmnIoElement eng c t k ids s = Inr s) \<and>
   (addMarker eng c (bpmn_identifier t) k = Some msg \<longrightarrow> msg \<noteq> missingNodeMessage \<longrightarrow>
    checkTaskCanBeHighlighted (bpmn_identifier t) \<longrightarrow>
    bpmn_process_definition_identifier t \<in> set ids \<longrightarrow>
      highlightBpmnIoElement eng c t k ids s = Inl (JsError msg, s)) \<and>
   (overlaysAdd eng m (bpmn_identifier t) = Some missingNodeMessage \<longrightarrow>
      addOverlayOnCallActivity p eng (Some m) t ids s = Inr s) \<and>
   (overlaysAdd eng m (bpmn_identifier t) = Some msg \<longrightarrow> msg \<noteq> missingNodeMessage \<longrightarrow>
    supplied p OnCallActivityOverlayClick \<longrightarrow> diagramType p = ''readonly'' \<longrightarrow>
    bpmn_process_definition_identifier t \<in> set ids \<longrightarrow>
      addOverlayOnCallActivity p eng (Some m) t ids s = Inl (JsError msg, s)) \<and>
   ((\<forall>c i k msg. addMarker eng c i k = Some msg \<longrightarrow> msg = missingNodeMessage) \<longrightarrow>
    (\<forall>m i msg. overlaysAdd eng m i = Some msg \<longrightarrow> msg = missingNodeMessage) \<longrightarrow>
      forEachTask p eng dms c ids ts s =
        Inr (s\<lparr>trace := trace s @
               concat (map (\<lambda>t. expectedMarker eng c ids t @ expectedOverlay p eng dms ids t) ts)\<rparr>)) \<and>
   (forEachBody p eng dms c ids t s = Inl e \<longrightarrow> forEachTask p eng dms c ids (t # ts) s = Inl e)"
proof (intro conjI impI)
  assume "\<forall>c i k msg. addMarker eng c i k = Some msg \<longrightarrow> msg = missingNodeMessage"
    and "\<forall>m i msg. overlaysAdd eng m i = Some msg \<longrightarrow> msg = missingNodeMessage"
  then show "forEachTask p eng dms c ids ts s =
        Inr (s\<lparr>trace := trace s @
               concat (map (\<lambda>t. expectedMarker eng c ids t @ expectedOverlay p eng dms ids t) ts)\<rparr>)"
    by (intro forEachTask_swallow) blast+
qed (simp_all add: highlightBpmnIoElement_def addOverlayOnCallActivity_def)

theorem missing_node_swallowed_witness:
  "highlightBpmnIoElement exampleEngine 0
       (mkTask ''Task_gone'' ''Process_main'' ''ManualTask'' ''READY'')
       ''active-task-highlight'' [''Process_main''] (fst initial) = Inr (fst initial) \<and>
   highlightBpmnIoElement brokenEngine 0
       (mkTask ''Task_2'' ''Process_main'' ''UserTask'' ''ERROR'')
       ''errored-task-highlight'' [''Process_main''] (fst initial) =
     Inl (JsError ''out of memory'', fst initial) \<and>
   addOverlayOnCallActivity exampleProps exampleEngine (Some 0)
       (mkTask ''Call_gone'' ''Process_main'' ''CallActivity'' ''STARTED'')
       [''Process_main''] (fst initial) = Inr (fst initial) \<and>
   addOverlayOnCallActivity exampleProps brokenEngine (Some 0)
       (mkTask ''Call_1'' ''Process_main'' ''CallActivity'' ''STARTED'')
       [''Process_main''] (fst initial) =
     Inl (JsError ''invalid element specified'', fst initial) \<and>
   forEachTask exampleProps exampleEngine (Some 0) 0 [''Process_main''] exampleTasks (fst initial) =
     Inr ((fst initial)\<lparr>trace :=
       [AddMarker 0 ''Task_1'' ''completed-task-highlight'',
        AddMarker 0 ''Task_2'' ''errored-task-highlight'',
        AddMarker 0 ''Call_1'' ''active-task-highlight'',
        OverlaysAdd 0 ''Call_1'' (mkTask ''Call_1'' ''Process_main'' ''CallActivity'' ''STARTED'')]\<rparr>) \<and>
   forEachTask exampleProps brokenEngine (Some 0) 0 [''Process_main'']
       (mkTask ''Task_2'' ''Process_main'' ''UserTask'' ''ERROR'' # exampleTasks) (fst initial) =
     Inl (JsError ''out of memory'', fst initial)"
proof -
  let ?gone = "mkTask ''Task_gone'' ''Process_main'' ''ManualTask'' ''READY''"
  let ?two = "mkTask ''Task_2'' ''Process_main'' ''UserTask'' ''ERROR''"
  let ?cgone = "mkTask ''Call_gone'' ''Process_main'' ''CallActivity'' ''STARTED''"
  let ?call = "mkTask ''Call_1'' ''Process_main'' ''CallActivity'' ''STARTED''"
  let ?s = "fst initial"
  have a: "highlightBpmnIoElement exampleEngine 0 ?gone ''active-task-highlight'' [''Process_main''] ?s
             = Inr ?s"
    using missing_node_swallowed
            [where eng = exampleEngine and c = 0 and t = ?gone and k = "''active-task-highlight''"
               and ids = "[''Process_main'']" and s = ?s]
    by (simp add: exampleEngine_def mkTask_def)
  have two: "checkTaskCanBeHighlighted ''Task_2''" by code_simp
  have b: "highlightBpmnIoElement brokenEngine 0 ?two ''errored-task-highlight'' [''Process_main''] ?s
             = Inl (JsError ''out of memory'', ?s)"
    using missing_node_swallowed
            [where eng = brokenEngine and c = 0 and t = ?two and k = "''errored-task-highlight''"
               and ids = "[''Process_main'']" and s = ?s and msg = "''out of memory''"] two
    by (simp add: brokenEngine_def mkTask_def missingNodeMessage_def)
  have c: "addOverlayOnCallActivity exampleProps exampleEngine (Some 0) ?cgone [''Process_main''] ?s
             = Inr ?s"
    using missing_node_swallowed
            [where eng = exampleEngine and m = 0 and t = ?cgone and p = exampleProps
               and ids = "[''Process_main'']" and s = ?s]
    by (simp add: exampleEngine_def mkTask_def)
  have d: "addOverlayOnCallActivity exampleProps brokenEngine (Some 0) ?call [''Process_main''] ?s
             = Inl (JsError ''invalid element specified'', ?s)"
    using missing_node_swallowed
            [where eng = brokenEngine and m = 0 and t = ?call and p = exampleProps
               and ids = "[''Process_main'']" and s = ?s and msg = "''invalid element specified''"]
    by (simp add: brokenEngine_def mkTask_def missingNodeMessage_def exampleProps_def supplied_def)
  have calls: "concat (map (\<lambda>t. expectedMarker exampleEngine 0 [''Process_main''] t @
                    expectedOverlay exampleProps exampleEngine (Some 0) [''Process_main''] t) exampleTasks) =
       [AddMarker 0 ''Task_1'' ''completed-task-highlight'',
        AddMarker 0 ''Task_2'' ''errored-task-highlight'',
        AddMarker 0 ''Call_1'' ''active-task-highlight'',
        OverlaysAdd 0 ''Call_1'' ?call]"
    by code_simp
  have e: "forEachTask exampleProps exampleEngine (Some 0) 0 [''Process_main''] exampleTasks ?s =
     Inr (?s\<lparr>trace :=
       [AddMarker 0 ''Task_1'' ''completed-task-highlight'',
        AddMarker 0 ''Task_2'' ''errored-task-highlight'',
        AddMarker 0 ''Call_1'' ''active-task-highlight'',
        OverlaysAdd 0 ''Call_1'' ?call]\<rparr>)"
    using missing_node_swallowed
            [where eng = exampleEngine and c = 0 and p = exampleProps and dms = "Some 0"
               and ids = "[''Process_main'']" and s = ?s and ts = exampleTasks]
    by (simp add: calls) (simp add: exampleEngine_def initial_def)
  have body: "forEachBody exampleProps brokenEngine (Some 0) 0 [''Process_main''] ?two ?s =
                Inl (JsError ''out of memory'', ?s)"
    by code_simp
  have f: "forEachTask exampleProps brokenEngine (Some 0) 0 [''Process_main''] (?two # exampleTasks) ?s =
     Inl (JsError ''out of memory'', ?s)"
    using missing_node_swallowed
            [where eng = brokenEngine and c = 0 and p = exampleProps and dms = "Some 0"
               and ids = "[''Process_main'']" and s = ?s and t = ?two and ts = exampleTasks
               and e = "(JsError ''out of memory'', ?s)"] body
    by blast
  from a b c d e f show ?thesis by blast
qed

section \<open>The frame of the listeners\<close>

lemma touched_id: "touched s [] False [] = s"
  by (simp add: touched_def)

lemma touched_touched:
  "touched (touched s xs b ys) xs' b' ys' = touched s (xs @ xs') (b \<or> b') (ys' @ ys)"
  by (simp add: touched_def)

lemma emit_touched: "emit c s = touched s [c] False []"
  by (simp add: touched_def emit_def)

lemma highlight_frame:
  "\<exists>xs. final (highlightBpmnIoElement eng canvas t cls ids s) = touched s xs False [] \<and>
        (\<forall>x \<in> set xs. \<not> lifeCall x)"
proof (cases "final (highlightBpmnIoElement eng canvas t cls ids s) = s")
  case True
  then show ?thesis using touched_id [of s] by (intro exI [of _ "[]"]) simp
next
  case False
  then have "final (highlightBpmnIoElement eng canvas t cls ids s) =
               touched s [AddMarker canvas (bpmn_identifier t) cls] False []"
    by (auto simp: highlightBpmnIoElement_def emit_touched split: if_splits option.splits)
  then show ?thesis by (intro exI [of _ "[AddMarker canvas (bpmn_identifier t) cls]"]) simp
qed

lemma overlay_frame:
  "\<exists>xs. final (addOverlayOnCallActivity p eng dms t ids s) = touched s xs False [] \<and>
        (\<forall>x \<in> set xs. \<not> lifeCall x)"
proof (cases "final (addOverlayOnCallActivity p eng dms t ids s) = s")
  case True
  then show ?thesis using touched_id [of s] by (intro exI [of _ "[]"]) simp
next
  case False
  then obtain m where "final (addOverlayOnCallActivity p eng dms t ids s) =
               touched s [OverlaysAdd m (bpmn_identifier t) t] False []"
    by (auto simp: addOverlayOnCallActivity_def emit_touched split: if_splits option.splits)
  then show ?thesis by (intro exI [of _ "[OverlaysAdd m (bpmn_identifier t) t]"]) simp
qed

lemma forEachBody_frame:
  "\<exists>xs. final (forEachBody p eng dms canvas ids t s) = touched s xs False [] \<and>
        (\<forall>x \<in> set xs. \<not> lifeCall x)"
proof -
  let ?h = "if className (state t) \<noteq> []
            then highlightBpmnIoElement eng canvas t (className (state t)) ids s else Inr s"
  have "\<exists>xs. final ?h = touched s xs False [] \<and> (\<forall>x \<in> set xs. \<not> lifeCall x)"
  proof (cases "className (state t) = []")
    case True
    then show ?thesis using touched_id [of s] by (intro exI [of _ "[]"]) simp
  next
    case False
    then show ?thesis using highlight_frame by simp
  qed
  then obtain xs where xs: "final ?h = touched s xs False []" "\<forall>x \<in> set xs. \<not> lifeCall x"
    by blast
  show ?thesis
  proof (cases ?h)
    case (Inl e)
    then have "forEachBody p eng dms canvas ids t s = ?h"
      by (simp add: forEachBody_def)
    with xs show ?thesis by metis
  next
    case (Inr s1)
    with xs have s1: "s1 = touched s xs False []" by simp
    let ?o = "if typename t = ''CallActivity'' \<and> state t \<notin> set [''FUTURE'', ''LIKELY'', ''MAYBE'']
              then addOverlayOnCallActivity p eng dms t ids s1 else Inr s1"
    have "\<exists>ys. final ?o = touched s1 ys False [] \<and> (\<forall>x \<in> set ys. \<not> lifeCall x)"
    proof (cases "typename t = ''CallActivity'' \<and> state t \<notin> set [''FUTURE'', ''LIKELY'', ''MAYBE'']")
      case True
      then show ?thesis using overlay_frame [of p eng dms t ids s1] by simp
    next
      case False
      then show ?thesis using touched_id [of s1] by (intro exI [of _ "[]"]) auto
    qed
    then obtain ys where ys: "final ?o = touched s1 ys False []" "\<forall>x \<in> set ys. \<not> lifeCall x"
      by blast
    have "forEachBody p eng dms canvas ids t s = ?o"
      using Inr by (simp add: forEachBody_def)
    with ys s1 xs(2) have "final (forEachBody p eng dms canvas ids t s) = touched s (xs @ ys) False []"
      "\<forall>x \<in> set (xs @ ys). \<not> lifeCall x"
      by (auto simp: touched_touched)
    then show ?thesis by blast
  qed
qed

lemma forEachTask_frame:
  "\<exists>xs. final (forEachTask p eng dms canvas ids ts s) = touched s xs False [] \<and>
        (\<forall>x \<in> set xs. \<not> lifeCall x)"
proof (induction ts arbitrary: s)
  case Nil
  show ?case using touched_id [of s] by (intro exI [of _ "[]"]) simp
next
  case (Cons t ts)
  obtain xs where xs: "final (forEachBody p eng dms canvas ids t s) = touched s xs False []"
      "\<forall>x \<in> set xs. \<not> lifeCall x"
    using forEachBody_frame by blast
  show ?case
  proof (cases "forEachBody p eng dms canvas ids t s")
    case (Inl e)
    with xs show ?thesis by (cases e) auto
  next
    case (Inr s1)
    with xs have s1: "s1 = touched s xs False []" by simp
    obtain ys where ys: "final (forEachTask p eng dms canvas ids ts s1) = touched s1 ys False []"
        "\<forall>x \<in> set ys. \<not> lifeCall x"
      using Cons.IH by blast
    with Inr s1 xs(2) have "final (forEachTask p eng dms canvas ids (t # ts) s) = touched s (xs @ ys) False []"
      "\<forall>x \<in> set (xs @ ys). \<not> lifeCall x"
      by (auto simp: touched_touched)
    then show ?thesis by blast
  qed
qed

lemma onImportDone_frame:
  "\<exists>xs. final (onImportDone p eng dms ev s) = touched s xs False [] \<and>
        (\<forall>x \<in> set xs. \<not> lifeCall x)"
proof (cases "ev_error ev")
  case (Some err)
  then have "final (onImportDone p eng dms ev s) = touched s [ConsoleError err] False []"
    by (simp add: onImportDone_def handleError_def emit_touched)
  then show ?thesis by (intro exI [of _ "[ConsoleError err]"]) simp
next
  case None
  let ?m = "if diagramType p = ''dmn''
            then (case dms of None \<Rightarrow> None | Some m \<Rightarrow> getActiveViewer eng m) else dms"
  show ?thesis
  proof (cases ?m)
    case nm: None
    with None have "final (onImportDone p eng dms ev s) = s" by (simp add: onImportDone_def)
    then show ?thesis using touched_id [of s] by (intro exI [of _ "[]"]) simp
  next
    case (Some modeler)
    show ?thesis
    proof (cases "tasks p")
      case nt: None
      with None Some have "final (onImportDone p eng dms ev s) = touched s [CanvasZoom modeler] False []"
        by (simp add: onImportDone_def emit_touched)
      then show ?thesis by (intro exI [of _ "[CanvasZoom modeler]"]) simp
    next
      case st: (Some ts)
      let ?s0 = "touched s [CanvasZoom modeler] False []"
      have r: "onImportDone p eng dms ev s =
                 forEachTask p eng dms modeler (getBpmnProcessIdentifiers eng modeler) ts ?s0"
        using None Some st by (simp add: onImportDone_def emit_touched)
      obtain ys where ys: "final (forEachTask p eng dms modeler (getBpmnProcessIdentifiers eng modeler) ts ?s0)
                             = touched ?s0 ys False []" "\<forall>x \<in> set ys. \<not> lifeCall x"
        using forEachTask_frame by blast
      then have "final (onImportDone p eng dms ev s) = touched s (CanvasZoom modeler # ys) False []"
        "\<forall>x \<in> set (CanvasZoom modeler # ys). \<not> lifeCall x"
        by (auto simp: r touched_touched)
      then show ?thesis by blast
    qed
  qed
qed

lemma restore_frame:
  "\<exists>ys. fold restoreReference rs s = touched s [] False ys"
proof (induction rs arbitrary: s)
  case Nil
  show ?case using touched_id [of s] by (intro exI [of _ "[]"]) simp
next
  case (Cons r rs)
  obtain y where y: "restoreReference r s = touched s [] False [y]"
    by (simp add: restoreReference_def touched_def)
  obtain ys where "fold restoreReference rs (restoreReference r s) = touched (restoreReference r s) [] False ys"
    using Cons.IH by blast
  with y have "fold restoreReference (r # rs) s = touched s [] False (ys @ [y])"
    by (simp add: touched_touched)
  then show ?case by blast
qed

lemma onParseComplete_frame: "\<exists>ys. onParseComplete ev s = touched s [] False ys"
proof (cases "ev_references ev")
  case None
  then show ?thesis using touched_id [of s] by (intro exI [of _ "[]"]) (simp add: onParseComplete_def)
next
  case (Some rs)
  then show ?thesis using restore_frame by (simp add: onParseComplete_def)
qed

lemma logEventError_frame: "\<exists>xs. logEventError ev s = touched s xs False [] \<and> (\<forall>x \<in> set xs. \<not> lifeCall x)"
proof (cases "ev_error ev")
  case None
  then show ?thesis using touched_id [of s] by (intro exI [of _ "[]"]) (simp add: logEventError_def)
next
  case (Some err)
  then show ?thesis
    by (intro exI [of _ "[ConsoleError err]"]) (simp add: logEventError_def emit_touched)
qed

lemma forward_frame:
  "\<exists>xs. (if b then emit (HostCall cb as) s else s) = touched s xs False [] \<and>
        (\<forall>x \<in> set xs. \<not> lifeCall x)"
proof (cases b)
  case True
  then show ?thesis by (intro exI [of _ "[HostCall cb as]"]) (simp add: emit_touched)
next
  case False
  then show ?thesis using touched_id [of s] by (intro exI [of _ "[]"]) simp
qed

lemma forwarded_frame:
  "\<exists>xs b ys. final (Inr (if c then emit (HostCall cb as) s else s)) = touched s xs b ys \<and>
             (\<forall>x \<in> set xs. \<not> lifeCall x)"
proof -
  obtain xs where "(if c then emit (HostCall cb as) s else s) = touched s xs False []"
      "\<forall>x \<in> set xs. \<not> lifeCall x"
    using forward_frame by blast
  then show ?thesis
    by (intro exI [of _ xs] exI [of _ False] exI [of _ "[]"]) simp
qed

lemma runHandler_frame:
  "\<exists>xs b ys. final (runHandler eng h p m ev s) = touched s xs b ys \<and> (\<forall>x \<in> set xs. \<not> lifeCall x)"
proof (cases h)
  case HScriptEdit
  obtain xs where xs: "logEventError ev s = touched s xs False []" "\<forall>x \<in> set xs. \<not> lifeCall x"
    using logEventError_frame by blast
  show ?thesis
  proof (cases "supplied p OnLaunchScriptEditor")
    case True
    let ?c = "HostCall OnLaunchScriptEditor
                [AStr (ev_element ev), AStr (ev_script ev), AStr (ev_scriptType ev), AEventBus, AModeling m]"
    have "final (runHandler eng h p m ev s) = touched s (xs @ [?c]) True []"
      using HScriptEdit True xs(1) by (simp add: handleLaunchScriptEditor_def touched_def emit_def)
    with xs(2) show ?thesis by (intro exI [of _ "xs @ [?c]"] exI [of _ True] exI [of _ "[]"]) simp
  next
    case False
    with HScriptEdit xs show ?thesis by (auto simp: handleLaunchScriptEditor_def)
  qed
next
  case HMarkdownEdit
  obtain xs where xs: "logEventError ev s = touched s xs False []" "\<forall>x \<in> set xs. \<not> lifeCall x"
    using logEventError_frame by blast
  show ?thesis
  proof (cases "supplied p OnLaunchMarkdownEditor")
    case True
    let ?c = "HostCall OnLaunchMarkdownEditor [AStr (ev_element ev), AStr (ev_value ev), AEventBus]"
    have "final (runHandler eng h p m ev s) = touched s (xs @ [?c]) True []"
      using HMarkdownEdit True xs(1) by (simp add: handleLaunchMarkdownEditor_def touched_def emit_def)
    with xs(2) show ?thesis by (intro exI [of _ "xs @ [?c]"] exI [of _ True] exI [of _ "[]"]) simp
  next
    case False
    with HMarkdownEdit xs show ?thesis by (auto simp: handleLaunchMarkdownEditor_def)
  qed
next
  case HFileEdit
  obtain xs where xs: "logEventError ev s = touched s xs False []" "\<forall>x \<in> set xs. \<not> lifeCall x"
    using logEventError_frame by blast
  show ?thesis
  proof (cases "supplied p OnLaunchJsonSchemaEditor")
    case True
    let ?c = "HostCall OnLaunchJsonSchemaEditor [AStr (ev_element ev), AStr (ev_value ev), AEventBus]"
    have "final (runHandler eng h p m ev s) = touched s (xs @ [?c]) False []"
      using HFileEdit True xs(1) by (simp add: touched_def emit_def)
    with xs(2) show ?thesis by (intro exI [of _ "xs @ [?c]"] exI [of _ False] exI [of _ "[]"]) simp
  next
    case False
    with HFileEdit xs show ?thesis by auto
  qed
next
  case HImportDone
  then show ?thesis using onImportDone_frame [of p eng "Some m" ev s] by auto
next
  case HParseComplete
  obtain ys where "onParseComplete ev s = touched s [] False ys"
    using onParseComplete_frame by blast
  with HParseComplete show ?thesis
    by (intro exI [of _ "[]"] exI [of _ False] exI [of _ ys]) simp
qed (simp_all only: runHandler.simps handleElementClick_def handleServiceTasksRequested_def
       handleDataStoresRequested_def forwarded_frame)

lemma dispatch_frame:
  "\<exists>xs b ys. final (dispatch eng ls ev s) = touched s xs b ys \<and> (\<forall>x \<in> set xs. \<not> lifeCall x)"
proof (induction ls arbitrary: s)
  case Nil
  show ?case using touched_id [of s] by (intro exI [of _ "[]"] exI [of _ False]) simp
next
  case (Cons l ls)
  let ?r = "runHandler eng (sub_handler l) (sub_props l) (sub_target l) ev s"
  obtain xs b ys where xs: "final ?r = touched s xs b ys" "\<forall>x \<in> set xs. \<not> lifeCall x"
    using runHandler_frame by blast
  show ?case
  proof (cases ?r)
    case (Inl e)
    with xs show ?thesis by (cases e) auto
  next
    case (Inr s1)
    with xs have s1: "s1 = touched s xs b ys" by simp
    obtain xs' b' ys' where ys: "final (dispatch eng ls ev s1) = touched s1 xs' b' ys'"
        "\<forall>x \<in> set xs'. \<not> lifeCall x"
      using Cons.IH by blast
    with Inr s1 xs(2) have "final (dispatch eng (l # ls) ev s) = touched s (xs @ xs') (b \<or> b') (ys' @ ys)"
      "\<forall>x \<in> set (xs @ xs'). \<not> lifeCall x"
      by (auto simp: touched_touched)
    then show ?thesis by blast
  qed
qed

section \<open>Submitting the find-by-id form\<close>

lemma findRun_snoc: "findRun isInteger (inputs @ [i]) = findStep isInteger i (findRun isInteger inputs)"
  by (simp add: findRun_def)

lemma lastChange_snoc:
  "lastChange (inputs @ [i]) = (case i of Change w \<Rightarrow> w | Submit \<Rightarrow> lastChange inputs)"
  by (cases i) (simp_all add: lastChange_def)

lemma findRun_invariant:
  "processInstanceId (findRun isInteger inputs) = lastChange inputs \<and>
   (lastChange inputs \<noteq> [] \<longrightarrow>
      processInstanceIdValid (findRun isInteger inputs) = isInteger (lastChange inputs))"
proof (induction inputs rule: rev_induct)
  case Nil
  show ?case by (simp add: findRun_def lastChange_def findInitial_def)
next
  case (snoc i inputs)
  show ?case
  proof (cases i)
    case (Change w)
    then show ?thesis
      by (simp add: findRun_snoc lastChange_snoc handleProcessInstanceIdChange_def)
  next
    case Submit
    with snoc show ?thesis
      by (simp add: findRun_snoc lastChange_snoc handleFormSubmission_def Let_def)
  qed
qed

text \<open>
  C10. In every state the page can reach, a submission asks the backend for
  \<^verbatim>\<open>/process-instances/find-by-id/{id}\<close> exactly when the text of the most recent
  change is not empty and \<^verbatim>\<open>isInteger\<close> accepted it at that change; the identifier
  in the path is that text. A submission with an empty identifier asks for nothing and
  leaves the field marked invalid.
\<close>

theorem find_by_id_submission:
  "backendCalls (handleFormSubmission (findRun isInteger inputs)) =
     backendCalls (findRun isInteger inputs) @
       (if lastChange inputs \<noteq> [] \<and> isInteger (lastChange inputs)
        then [''/process-instances/find-by-id/'' @ lastChange inputs] else []) \<and>
   processInstanceId (findRun isInteger inputs) = lastChange inputs \<and>
   (lastChange inputs = [] \<longrightarrow>
      \<not> processInstanceIdValid (handleFormSubmission (findRun isInteger inputs)))"
  using findRun_invariant [of isInteger inputs]
  by (auto simp: handleFormSubmission_def Let_def)

theorem find_by_id_submission_witness:
  "lastChange [Change ''12'', Submit, Change []] = [] \<and>
   \<not> processInstanceIdValid (handleFormSubmission (findRun digitsOnly [Change ''12'', Submit, Change []])) \<and>
   backendCalls (handleFormSubmission (findRun digitsOnly [Change ''12'', Submit, Change []])) =
     [''/process-instances/find-by-id/12''] \<and>
   backendCalls (handleFormSubmission (findRun digitsOnly [Change ''12'', Submit, Change ''7'', Change ''7a''])) =
     [''/process-instances/find-by-id/12''] \<and>
   backendCalls (handleFormSubmission (findRun digitsOnly [Change ''7a'', Change ''7''])) =
     [''/process-instances/find-by-id/7'']"
proof -
  have l: "lastChange [Change ''12'', Submit, Change []] = []"
    by (simp add: lastChange_def)
  have r: "backendCalls (findRun digitsOnly [Change ''12'', Submit, Change []]) =
             [''/process-instances/find-by-id/12'']"
    by code_simp
  have r2: "backendCalls (findRun digitsOnly [Change ''12'', Submit, Change ''7'', Change ''7a'']) =
             [''/process-instances/find-by-id/12'']"
    by code_simp
  have r3: "backendCalls (findRun digitsOnly [Change ''7a'', Change ''7'']) = []"
    by code_simp
  have d: "\<not> digitsOnly ''7a''" "digitsOnly ''7''" by code_simp+
  note a = find_by_id_submission [of digitsOnly "[Change ''12'', Submit, Change []]"]
  note b = find_by_id_submission [of digitsOnly "[Change ''12'', Submit, Change ''7'', Change ''7a'']"]
  note c = find_by_id_submission [of digitsOnly "[Change ''7a'', Change ''7'']"]
  have "\<not> processInstanceIdValid (handleFormSubmission (findRun digitsOnly [Change ''12'', Submit, Change []]))"
    using a l by blast
  moreover have "backendCalls (handleFormSubmission (findRun digitsOnly [Change ''12'', Submit, Change []])) =
     [''/process-instances/find-by-id/12'']"
    using a l r by simp
  moreover have "backendCalls (handleFormSubmission (findRun digitsOnly [Change ''12'', Submit, Change ''7'', Change ''7a''])) =
     [''/process-instances/find-by-id/12'']"
    using b r2 d by (simp add: lastChange_def)
  moreover have "backendCalls (handleFormSubmission (findRun digitsOnly [Change ''7a'', Change ''7''])) =
     [''/process-instances/find-by-id/7'']"
    using c r3 d by (simp add: lastChange_def)
  ultimately show ?thesis using l by blast
qed

section \<open>Where the document comes from\<close>

lemma replaceAll_absent:
  "pat \<noteq> [] \<Longrightarrow> \<not> sublist pat doc \<Longrightarrow> replaceAll pat rep doc = doc"
proof (induction doc)
  case Nil
  then show ?case by simp
next
  case (Cons c cs)
  then show ?case by (auto simp: sublist_Cons_right)
qed

text \<open>
  C2. When the effect runs (an engine handle exists and no edit is pending), it takes
  the document from exactly one place, the first of four that is given, where a
  string is given when it is defined and not empty: the inline text, which becomes
  the document text with no call to the network; else the URL, which is fetched; else
  the file name, for which the backend is asked at
  \<^verbatim>\<open>/process-models/{processModelId}/files/{fileName}\<close>; else the blank template of the
  diagram type, which is fetched, and whose placeholder is replaced, when the text
  arrives, by \<^verbatim>\<open>Process_\<close> or \<^verbatim>\<open>decision_\<close> and the generated token. (The fetch of
  a given URL is started without a text handler: its text is not stored.)
\<close>

theorem document_source_precedence:
  assumes "diagramModelerState snap \<noteq> None" and "\<not> performingXmlUpdates snap"
  shows
  "(diagramXML p = Some xml \<longrightarrow> xml \<noteq> [] \<longrightarrow>
      getXmlEffect p snap s = s\<lparr>diagramXMLString := xml\<rparr>) \<and>
   (\<not> truthy (diagramXML p) \<longrightarrow> url p = Some u \<longrightarrow> u \<noteq> [] \<longrightarrow>
      getXmlEffect p snap s = s\<lparr>trace := trace s @ [Fetch u NoTextHandler]\<rparr>) \<and>
   (\<not> truthy (diagramXML p) \<longrightarrow> \<not> truthy (url p) \<longrightarrow> fileName p = Some f \<longrightarrow> f \<noteq> [] \<longrightarrow>
      getXmlEffect p snap s =
        s\<lparr>trace := trace s @
             [MakeCallToBackend (''/process-models/'' @ processModelId p @ ''/files/'' @ f)]\<rparr>) \<and>
   (\<not> truthy (diagramXML p) \<longrightarrow> \<not> truthy (url p) \<longrightarrow> \<not> truthy (fileName p) \<longrightarrow>
      getXmlEffect p snap s =
        s\<lparr>trace := trace s @
             [if diagramType p = ''dmn'' then Fetch ''/new_dmn_diagram.dmn'' DmnTextHandler
              else Fetch ''/new_bpmn_diagram.bpmn'' BpmnTextHandler]\<rparr>) \<and>
   diagramXMLString (fetchResolved BpmnTextHandler token doc s) =
     replaceAll ''{{PROCESS_ID}}'' (''Process_'' @ token) doc \<and>
   diagramXMLString (fetchResolved DmnTextHandler token doc s) =
     replaceAll ''{{DECISION_ID}}'' (''decision_'' @ token) doc \<and>
   fetchResolved NoTextHandler token doc s = s"
  using assms
  by (cases "diagramXML p"; cases "url p"; cases "fileName p")
     (auto simp: getXmlEffect_def emit_def fetchDiagramFromJsonAPI_def bpmnTextHandler_def
        dmnTextHandler_def)

theorem document_source_precedence_witness:
  "getXmlEffect exampleProps ((fst initial)\<lparr>diagramModelerState := Some 0\<rparr>) (fst initial) =
     (fst initial)\<lparr>diagramXMLString := ''<definitions/>''\<rparr> \<and>
   getXmlEffect (exampleProps\<lparr>diagramXML := Some [], url := Some ''https://host/a.bpmn'',
                   fileName := Some ''a.bpmn''\<rparr>)
       ((fst initial)\<lparr>diagramModelerState := Some 0\<rparr>) (fst initial) =
     (fst initial)\<lparr>trace := [Fetch ''https://host/a.bpmn'' NoTextHandler]\<rparr> \<and>
   getXmlEffect (exampleProps\<lparr>diagramXML := None, fileName := Some ''a.bpmn''\<rparr>)
       ((fst initial)\<lparr>diagramModelerState := Some 0\<rparr>) (fst initial) =
     (fst initial)\<lparr>trace := [MakeCallToBackend ''/process-models/group/model/files/a.bpmn'']\<rparr> \<and>
   getXmlEffect (exampleProps\<lparr>diagramXML := None\<rparr>)
       ((fst initial)\<lparr>diagramModelerState := Some 0\<rparr>) (fst initial) =
     (fst initial)\<lparr>trace := [Fetch ''/new_bpmn_diagram.bpmn'' BpmnTextHandler]\<rparr> \<and>
   diagramXMLString (fetchResolved BpmnTextHandler ''a1B2c3D''
       ''<process id={{PROCESS_ID}}><task id={{PROCESS_ID}}_t/></process>'' (fst initial)) =
     ''<process id=Process_a1B2c3D><task id=Process_a1B2c3D_t/></process>''"
proof -
  let ?snap = "(fst initial)\<lparr>diagramModelerState := Some 0\<rparr>"
  have g: "diagramModelerState ?snap \<noteq> None" "\<not> performingXmlUpdates ?snap"
    by (simp_all add: initial_def)
  have r: "replaceAll ''{{PROCESS_ID}}'' (''Process_'' @ ''a1B2c3D'')
             ''<process id={{PROCESS_ID}}><task id={{PROCESS_ID}}_t/></process>'' =
           ''<process id=Process_a1B2c3D><task id=Process_a1B2c3D_t/></process>''"
    by code_simp
  have a: "getXmlEffect exampleProps ?snap (fst initial) =
             (fst initial)\<lparr>diagramXMLString := ''<definitions/>''\<rparr>"
    using document_source_precedence [OF g, of exampleProps "''<definitions/>''" "fst initial"]
    by (simp add: exampleProps_def)
  have b: "getXmlEffect (exampleProps\<lparr>diagramXML := Some [], url := Some ''https://host/a.bpmn'',
                   fileName := Some ''a.bpmn''\<rparr>) ?snap (fst initial) =
     (fst initial)\<lparr>trace := [Fetch ''https://host/a.bpmn'' NoTextHandler]\<rparr>"
    using document_source_precedence
            [OF g, where p = "exampleProps\<lparr>diagramXML := Some [], url := Some ''https://host/a.bpmn'',
                   fileName := Some ''a.bpmn''\<rparr>" and u = "''https://host/a.bpmn''"
                   and s = "fst initial"]
    by (simp add: initial_def)
  have c: "getXmlEffect (exampleProps\<lparr>diagramXML := None, fileName := Some ''a.bpmn''\<rparr>) ?snap (fst initial) =
     (fst initial)\<lparr>trace := [MakeCallToBackend ''/process-models/group/model/files/a.bpmn'']\<rparr>"
    using document_source_precedence
            [OF g, where p = "exampleProps\<lparr>diagramXML := None, fileName := Some ''a.bpmn''\<rparr>"
               and f = "''a.bpmn''" and s = "fst initial"]
    by (simp add: initial_def exampleProps_def)
  have d: "getXmlEffect (exampleProps\<lparr>diagramXML := None\<rparr>) ?snap (fst initial) =
     (fst initial)\<lparr>trace := [Fetch ''/new_bpmn_diagram.bpmn'' BpmnTextHandler]\<rparr>"
    using document_source_precedence
            [OF g, where p = "exampleProps\<lparr>diagramXML := None\<rparr>" and s = "fst initial"]
    by (simp add: initial_def exampleProps_def)
  have e: "diagramXMLString (fetchResolved BpmnTextHandler ''a1B2c3D''
       ''<process id={{PROCESS_ID}}><task id={{PROCESS_ID}}_t/></process>'' (fst initial)) =
     ''<process id=Process_a1B2c3D><task id=Process_a1B2c3D_t/></process>''"
    using document_source_precedence
            [OF g, where s = "fst initial" and token = "''a1B2c3D''"
               and doc = "''<process id={{PROCESS_ID}}><task id={{PROCESS_ID}}_t/></process>''"]
    by (simp only: r)
  from a b c d e show ?thesis by blast
qed

section \<open>Views of the trace\<close>

lemma imported_append [simp]: "imported (xs @ ys) = imported xs @ imported ys"
  by (simp add: imported_def)

lemma destroyed_append [simp]: "destroyed (xs @ ys) = destroyed xs @ destroyed ys"
  by (simp add: destroyed_def)

lemma imported_Nil [simp]: "imported [] = []"
  by (simp add: imported_def)

lemma destroyed_Nil [simp]: "destroyed [] = []"
  by (simp add: destroyed_def)

lemma imported_Cons [simp]: "imported (x # xs) = importTarget x @ imported xs"
  by (simp add: imported_def)

lemma destroyed_Cons [simp]: "destroyed (x # xs) = destroyTarget x @ destroyed xs"
  by (simp add: destroyed_def)

lemma quiet_calls:
  assumes "\<forall>x \<in> set xs. \<not> lifeCall x"
  shows "imported xs = [] \<and> destroyed xs = []"
  using assms
proof (induction xs)
  case Nil
  show ?case by simp
next
  case (Cons x xs)
  then show ?case by (cases x) auto
qed

lemma touched_fields [simp]:
  "trace (touched s xs b ys) = trace s @ xs"
  "performingXmlUpdates (touched s xs b ys) = (performingXmlUpdates s \<or> b)"
  "listeners (touched s xs b ys) = listeners s"
  "nextObject (touched s xs b ys) = nextObject s"
  "diagramModelerState (touched s xs b ys) = diagramModelerState s"
  "diagramXMLString (touched s xs b ys) = diagramXMLString s"
  by (simp_all add: touched_def)

section \<open>The effects, field by field\<close>

lemma fold_on:
  "fold (\<lambda>(name, h). on m name h p) xs s =
     s\<lparr>listeners := listeners s @
          map (\<lambda>(name, h). \<lparr>sub_target = m, sub_name = name, sub_handler = h, sub_props = p\<rparr>) xs\<rparr>"
  by (induction xs arbitrary: s) (auto simp: on_def)

lemma createEffect_trace:
  "\<exists>x. trace (createEffect p s) = trace s @ [x] \<and> importTarget x = [] \<and> destroyTarget x = []"
  by (simp add: createEffect_def Let_def fold_on emit_def)

lemma createEffect_guard [simp]:
  "performingXmlUpdates (createEffect p s) = performingXmlUpdates s"
  by (simp add: createEffect_def Let_def fold_on emit_def)

lemma createEffect_xml [simp]:
  "diagramXMLString (createEffect p s) = diagramXMLString s"
  by (simp add: createEffect_def Let_def fold_on emit_def)

lemma runCleanup_fields [simp]:
  "performingXmlUpdates (runCleanup c s) = performingXmlUpdates s"
  "diagramXMLString (runCleanup c s) = diagramXMLString s"
  "listeners (runCleanup c s) = listeners s"
  "nextObject (runCleanup c s) = nextObject s"
  "diagramModelerState (runCleanup c s) = diagramModelerState s"
  "trace (runCleanup c s) = trace s @ map Destroy (pending c)"
  by (cases c; simp add: runCleanup_def emit_def pending_def)+

lemma zoom_frame:
  "\<exists>xs. zoom eng p dms amount s = touched s xs False [] \<and> (\<forall>x \<in> set xs. \<not> lifeCall x)"
proof (cases "zoom eng p dms amount s = s")
  case True
  then show ?thesis using touched_id [of s] by (intro exI [of _ "[]"]) simp
next
  case False
  then obtain x where "zoom eng p dms amount s = touched s [x] False []" "\<not> lifeCall x"
    by (auto simp: zoom_def emit_touched split: option.splits if_splits)
  then show ?thesis by (intro exI [of _ "[x]"]) simp
qed

lemma importEffect_skip:
  assumes "diagramModelerState snap = None \<or> diagramXMLString snap = []"
  shows "importEffect eng p snap s = (s, None)"
  using assms by (auto simp: importEffect_def split: option.splits)

lemma importEffect_run:
  assumes "diagramModelerState snap = Some m" and "diagramXMLString snap \<noteq> []"
  shows "\<exists>xs. importEffect eng p snap s =
           (s\<lparr>trace := trace s @ ImportXML m (diagramXMLString snap) # xs,
              listeners := listeners s @
                \<lparr>sub_target = m, sub_name = ''import.done'', sub_handler = HImportDone,
                  sub_props = p\<rparr> #
                (if diagramType p \<noteq> ''dmn''
                 then [\<lparr>sub_target = m, sub_name = ''import.parse.complete'',
                         sub_handler = HParseComplete, sub_props = p\<rparr>]
                 else [])\<rparr>,
            Some m) \<and> (\<forall>x \<in> set xs. \<not> lifeCall x)"
proof -
  let ?s2 = "emit (ImportXML m (diagramXMLString snap)) (on m ''import.done'' HImportDone p s)"
  obtain xs where xs: "zoom eng p (Some m) 0 ?s2 = touched ?s2 xs False []"
      "\<forall>x \<in> set xs. \<not> lifeCall x"
    using zoom_frame by blast
  have "importEffect eng p snap s =
           (s\<lparr>trace := trace s @ ImportXML m (diagramXMLString snap) # xs,
              listeners := listeners s @
                \<lparr>sub_target = m, sub_name = ''import.done'', sub_handler = HImportDone,
                  sub_props = p\<rparr> #
                (if diagramType p \<noteq> ''dmn''
                 then [\<lparr>sub_target = m, sub_name = ''import.parse.complete'',
                         sub_handler = HParseComplete, sub_props = p\<rparr>]
                 else [])\<rparr>,
            Some m)"
    using assms xs(1)
    by (simp add: importEffect_def Let_def fixUnresolvedReferences_def on_def emit_def touched_def)
  with xs(2) show ?thesis by blast
qed

lemma importEffect_kept:
  "performingXmlUpdates (fst (importEffect eng p snap s)) = performingXmlUpdates s \<and>
   diagramXMLString (fst (importEffect eng p snap s)) = diagramXMLString s \<and>
   nextObject (fst (importEffect eng p snap s)) = nextObject s \<and>
   diagramModelerState (fst (importEffect eng p snap s)) = diagramModelerState s"
proof (cases "diagramModelerState snap = None \<or> diagramXMLString snap = []")
  case True
  then show ?thesis by (simp add: importEffect_skip)
next
  case False
  then obtain m where m: "diagramModelerState snap = Some m" "diagramXMLString snap \<noteq> []"
    by auto
  from importEffect_run [OF m, of eng p s] show ?thesis by auto
qed

lemma importEffect_fields [simp]:
  "performingXmlUpdates (fst (importEffect eng p snap s)) = performingXmlUpdates s"
  "diagramXMLString (fst (importEffect eng p snap s)) = diagramXMLString s"
  "nextObject (fst (importEffect eng p snap s)) = nextObject s"
  "diagramModelerState (fst (importEffect eng p snap s)) = diagramModelerState s"
  using importEffect_kept [of eng p snap s] by simp_all

lemma importEffect_views:
  "imported (trace (fst (importEffect eng p snap s))) =
     imported (trace s) @ pending (snd (importEffect eng p snap s)) \<and>
   destroyed (trace (fst (importEffect eng p snap s))) = destroyed (trace s)"
proof (cases "diagramModelerState snap = None \<or> diagramXMLString snap = []")
  case True
  then show ?thesis by (simp add: importEffect_skip pending_def)
next
  case False
  then obtain m where m: "diagramModelerState snap = Some m" "diagramXMLString snap \<noteq> []"
    by auto
  from importEffect_run [OF m, of eng p s] quiet_calls
  show ?thesis by (auto simp: pending_def)
qed

lemma getXmlEffect_cases:
  "getXmlEffect p snap s = s \<or> (\<exists>x. getXmlEffect p snap s = s\<lparr>diagramXMLString := x\<rparr>) \<or>
   (\<exists>c. \<not> lifeCall c \<and> getXmlEffect p snap s = emit c s)"
proof (cases "diagramModelerState snap = None \<or> performingXmlUpdates snap")
  case True
  then show ?thesis by (auto simp: getXmlEffect_def)
next
  case run: False
  show ?thesis
  proof (cases "given (diagramXML p)")
    case (Some xml)
    with run have "getXmlEffect p snap s = s\<lparr>diagramXMLString := xml\<rparr>"
      by (auto simp: getXmlEffect_def)
    then show ?thesis by blast
  next
    case nx: None
    show ?thesis
    proof (cases "given (url p)")
      case (Some u)
      with run nx have "getXmlEffect p snap s = emit (Fetch u NoTextHandler) s"
        by (auto simp: getXmlEffect_def)
      moreover have "\<not> lifeCall (Fetch u NoTextHandler)" by simp
      ultimately show ?thesis by blast
    next
      case nu: None
      show ?thesis
      proof (cases "given (fileName p)")
        case (Some f)
        let ?c = "MakeCallToBackend (''/process-models/'' @ processModelId p @ ''/files/'' @ f)"
        from run nx nu Some have "getXmlEffect p snap s = emit ?c s"
          by (auto simp: getXmlEffect_def fetchDiagramFromJsonAPI_def)
        moreover have "\<not> lifeCall ?c" by simp
        ultimately show ?thesis by blast
      next
        case None
        let ?c = "if diagramType p = ''dmn'' then Fetch ''/new_dmn_diagram.dmn'' DmnTextHandler
                  else Fetch ''/new_bpmn_diagram.bpmn'' BpmnTextHandler"
        from run nx nu None have "getXmlEffect p snap s = emit ?c s"
          by (auto simp: getXmlEffect_def)
        moreover have "\<not> lifeCall ?c" by simp
        ultimately show ?thesis by blast
      qed
    qed
  qed
qed

lemma getXmlEffect_frame:
  "\<exists>xs x. getXmlEffect p snap s = s\<lparr>trace := trace s @ xs, diagramXMLString := x\<rparr> \<and>
          (\<forall>c \<in> set xs. \<not> lifeCall c)"
proof -
  have a: "s = s\<lparr>trace := trace s @ [], diagramXMLString := diagramXMLString s\<rparr>" by simp
  have b: "\<And>x. s\<lparr>diagramXMLString := x\<rparr> = s\<lparr>trace := trace s @ [], diagramXMLString := x\<rparr>" by simp
  have c: "\<And>c. emit c s = s\<lparr>trace := trace s @ [c], diagramXMLString := diagramXMLString s\<rparr>"
    by (simp add: emit_def)
  from getXmlEffect_cases [of p snap s] show ?thesis
  proof (elim disjE exE conjE)
    assume "getXmlEffect p snap s = s"
    with a show ?thesis by (intro exI [of _ "[]"] exI [of _ "diagramXMLString s"]) simp
  next
    fix x assume "getXmlEffect p snap s = s\<lparr>diagramXMLString := x\<rparr>"
    with b show ?thesis by (intro exI [of _ "[]"] exI [of _ x]) simp
  next
    fix c assume "\<not> lifeCall c" "getXmlEffect p snap s = emit c s"
    with c show ?thesis by (intro exI [of _ "[c]"] exI [of _ "diagramXMLString s"]) simp
  qed
qed

lemma getXmlEffect_fields [simp]:
  "performingXmlUpdates (getXmlEffect p snap s) = performingXmlUpdates s"
  "listeners (getXmlEffect p snap s) = listeners s"
  "nextObject (getXmlEffect p snap s) = nextObject s"
  "diagramModelerState (getXmlEffect p snap s) = diagramModelerState s"
  "imported (trace (getXmlEffect p snap s)) = imported (trace s)"
  "destroyed (trace (getXmlEffect p snap s)) = destroyed (trace s)"
  using getXmlEffect_frame [of p snap s] quiet_calls by auto

lemma getXmlEffect_suppressed:
  "performingXmlUpdates snap \<Longrightarrow> getXmlEffect p snap s = s"
  by (simp add: getXmlEffect_def)

lemma createEffect_views [simp]:
  "imported (trace (createEffect p s)) = imported (trace s)"
  "destroyed (trace (createEffect p s)) = destroyed (trace s)"
  using createEffect_trace [of p s] by auto

lemma map_Destroy_views [simp]:
  "imported (map Destroy ms) = []" "destroyed (map Destroy ms) = ms"
  by (induction ms) simp_all

section \<open>One render, one input, a run\<close>

lemma commit_views:
  assumes "imported (trace (fst c)) = destroyed (trace (fst c)) @ pending (importCleanup (snd c))"
  shows "imported (trace (fst (commit eng p c))) =
           destroyed (trace (fst (commit eng p c))) @ pending (importCleanup (snd (commit eng p c)))"
proof (cases "lastImport (snd c) \<noteq> Some (importDepsOf p (fst c))")
  case True
  then show ?thesis
    using assms importEffect_views
    by (simp add: commit_def Let_def)
next
  case False
  then show ?thesis
    using assms by (simp add: commit_def Let_def)
qed

lemma commit_guard:
  "performingXmlUpdates (fst (commit eng p c)) = performingXmlUpdates (fst c)"
  by (simp add: commit_def Let_def)

lemma commit_suppressed:
  assumes "performingXmlUpdates (fst c)"
  shows "diagramXMLString (fst (commit eng p c)) = diagramXMLString (fst c)"
  using assms by (simp add: commit_def Let_def getXmlEffect_suppressed)

lemma fire_frame:
  "\<exists>xs b ys. fst (step eng (Fire m name ev) c) = touched (fst c) xs b ys \<and>
             (\<forall>x \<in> set xs. \<not> lifeCall x)"
proof -
  let ?r = "fire eng m name ev (fst c)"
  obtain xs b ys where xs: "final ?r = touched (fst c) xs b ys" "\<forall>x \<in> set xs. \<not> lifeCall x"
    using dispatch_frame unfolding fire_def by blast
  show ?thesis
  proof (cases ?r)
    case (Inr s1)
    with xs show ?thesis by auto
  next
    case (Inl e)
    obtain msg s1 where e: "e = (JsError msg, s1)"
      by (cases e) (metis jserror.exhaust)
    with Inl xs have "fst (step eng (Fire m name ev) c) = touched (fst c) (xs @ [Uncaught msg]) b ys"
      by (simp add: emit_touched touched_touched)
    moreover have "\<forall>x \<in> set (xs @ [Uncaught msg]). \<not> lifeCall x" using xs(2) by simp
    ultimately show ?thesis by blast
  qed
qed

lemma fire_react: "snd (step eng (Fire m name ev) c) = snd c"
  by (cases "fire eng m name ev (fst c)") (auto split: prod.splits jserror.splits)

lemma step_views:
  assumes "imported (trace (fst c)) = destroyed (trace (fst c)) @ pending (importCleanup (snd c))"
  shows "imported (trace (fst (step eng i c))) =
           destroyed (trace (fst (step eng i c))) @ pending (importCleanup (snd (step eng i c)))"
proof (cases i)
  case (Render p)
  with assms show ?thesis by (simp add: commit_views)
next
  case (Fire m name ev)
  obtain xs b ys where "fst (step eng (Fire m name ev) c) = touched (fst c) xs b ys"
      "\<forall>x \<in> set xs. \<not> lifeCall x"
    using fire_frame by blast
  with assms Fire quiet_calls [of xs] show ?thesis by (simp add: fire_react del: step.simps)
next
  case (OverlayClick t)
  with assms show ?thesis by (simp add: overlayClick_def emit_def)
next
  case (FetchResolved h token doc)
  with assms show ?thesis by (cases h) (simp_all add: bpmnTextHandler_def dmnTextHandler_def)
next
  case (FetchRejected err)
  with assms show ?thesis by (simp add: handleError_def emit_def)
next
  case (BackendSuccess file_contents)
  with assms show ?thesis by (simp add: setDiagramXMLStringFromResponseJson_def)
qed

lemma step_guard:
  assumes "performingXmlUpdates (fst c)"
  shows "performingXmlUpdates (fst (step eng i c))"
proof (cases i)
  case (Render p)
  with assms show ?thesis by (simp add: commit_guard)
next
  case (Fire m name ev)
  obtain xs b ys where "fst (step eng (Fire m name ev) c) = touched (fst c) xs b ys"
    using fire_frame by blast
  with assms Fire show ?thesis by (simp del: step.simps)
next
  case (OverlayClick t)
  with assms show ?thesis by (simp add: overlayClick_def emit_def)
next
  case (FetchResolved h token doc)
  with assms show ?thesis by (cases h) (simp_all add: bpmnTextHandler_def dmnTextHandler_def)
next
  case (FetchRejected err)
  with assms show ?thesis by (simp add: handleError_def emit_def)
next
  case (BackendSuccess file_contents)
  with assms show ?thesis by (simp add: setDiagramXMLStringFromResponseJson_def)
qed

lemma run_Cons: "run eng (i # inputs) c = run eng inputs (step eng i c)"
  by (simp add: run_def)

lemma run_views:
  assumes "imported (trace (fst c)) = destroyed (trace (fst c)) @ pending (importCleanup (snd c))"
  shows "imported (trace (fst (run eng inputs c))) =
           destroyed (trace (fst (run eng inputs c))) @ pending (importCleanup (snd (run eng inputs c)))"
  using assms
proof (induction inputs arbitrary: c)
  case Nil
  then show ?case by (simp add: run_def)
next
  case (Cons i inputs)
  from Cons.IH [OF step_views [OF Cons.prems]] show ?case by (simp add: run_Cons)
qed

lemma run_guard:
  assumes "performingXmlUpdates (fst c)"
  shows "performingXmlUpdates (fst (run eng inputs c))"
  using assms
proof (induction inputs arbitrary: c)
  case Nil
  then show ?case by (simp add: run_def)
next
  case (Cons i inputs)
  from Cons.IH [OF step_guard [OF Cons.prems]] show ?case by (simp add: run_Cons)
qed

section \<open>The guard of a pending edit\<close>

text \<open>
  C4, as the specification states it, fails. A request to open the decision-table
  editor is forwarded to the host and leaves the guard unset (first two facts). And
  when a request to open the script editor has set the guard while the backend was
  still being asked for the file, the answer starts a new load of the document, which
  is imported, and the guard is still set (last two facts).
\<close>

theorem guard_for_all_launches_counterexample:
  "\<not> performingXmlUpdates
       (fst (run exampleEngine [Render editorProps, Fire 0 ''spiff.dmn.edit'' exampleEvent] initial)) \<and>
   trace (fst (run exampleEngine [Render editorProps, Fire 0 ''spiff.dmn.edit'' exampleEvent] initial)) =
     [NewBpmnModeler 0, HostCall OnLaunchDmnEditor [AStr ''text'']] \<and>
   trace
       (fst (run exampleEngine
              [Render (editorProps\<lparr>diagramXML := None, fileName := Some ''a.bpmn''\<rparr>),
               Render (editorProps\<lparr>diagramXML := None, fileName := Some ''a.bpmn''\<rparr>),
               Fire 0 ''spiff.script.edit'' exampleEvent,
               BackendSuccess ''<loaded/>'',
               Render (editorProps\<lparr>diagramXML := None, fileName := Some ''a.bpmn''\<rparr>)] initial)) =
     [NewBpmnModeler 0,
      MakeCallToBackend ''/process-models/group/model/files/a.bpmn'',
      HostCall OnLaunchScriptEditor
        [AStr ''Task_1'', AStr ''x = 1'', AStr ''bpmn:script'', AEventBus, AModeling 0],
      ImportXML 0 ''<loaded/>'', CanvasZoom 0] \<and>
   performingXmlUpdates
       (fst (run exampleEngine
              [Render (editorProps\<lparr>diagramXML := None, fileName := Some ''a.bpmn''\<rparr>),
               Render (editorProps\<lparr>diagramXML := None, fileName := Some ''a.bpmn''\<rparr>),
               Fire 0 ''spiff.script.edit'' exampleEvent,
               BackendSuccess ''<loaded/>'',
               Render (editorProps\<lparr>diagramXML := None, fileName := Some ''a.bpmn''\<rparr>)] initial))"
  by code_simp

text \<open>
  C4, amended. The guard is set when a request to open the script editor or the
  markdown editor is handled and the host supplied the callback for it. Once set, it
  stays set whatever happens to the component afterwards, up to and including its
  unmounting; and while it is set the effect that gets the diagram's text does
  nothing, so a render leaves the document text as it is.
\<close>

theorem guard_set_kept_and_suppressing:
  "(supplied p OnLaunchScriptEditor \<longrightarrow>
      performingXmlUpdates (final (runHandler eng HScriptEdit p m ev s))) \<and>
   (supplied p OnLaunchMarkdownEditor \<longrightarrow>
      performingXmlUpdates (final (runHandler eng HMarkdownEdit p m ev s))) \<and>
   (performingXmlUpdates (fst c) \<longrightarrow>
      performingXmlUpdates (fst (run eng inputs c)) \<and>
      performingXmlUpdates (fst (unmount (run eng inputs c))) \<and>
      getXmlEffect p (fst c) s = s \<and>
      diagramXMLString (fst (commit eng p c)) = diagramXMLString (fst c))"
proof (intro conjI impI)
  assume "supplied p OnLaunchScriptEditor"
  then show "performingXmlUpdates (final (runHandler eng HScriptEdit p m ev s))"
    by (simp add: handleLaunchScriptEditor_def emit_def)
next
  assume "supplied p OnLaunchMarkdownEditor"
  then show "performingXmlUpdates (final (runHandler eng HMarkdownEdit p m ev s))"
    by (simp add: handleLaunchMarkdownEditor_def emit_def)
next
  assume g: "performingXmlUpdates (fst c)"
  then show "performingXmlUpdates (fst (run eng inputs c))" by (rule run_guard)
  then show "performingXmlUpdates (fst (unmount (run eng inputs c)))"
    by (simp add: unmount_def)
  from g show "getXmlEffect p (fst c) s = s" by (rule getXmlEffect_suppressed)
  from g show "diagramXMLString (fst (commit eng p c)) = diagramXMLString (fst c)"
    by (rule commit_suppressed)
qed

theorem guard_set_kept_and_suppressing_witness:
  "supplied editorProps OnLaunchScriptEditor \<and> supplied editorProps OnLaunchMarkdownEditor \<and>
   performingXmlUpdates (final (runHandler exampleEngine HScriptEdit editorProps 0 exampleEvent (fst initial))) \<and>
   performingXmlUpdates (final (runHandler exampleEngine HMarkdownEdit editorProps 0 exampleEvent (fst initial))) \<and>
   performingXmlUpdates
     (fst (run exampleEngine [Render editorProps, Render editorProps, Render editorProps,
                              Fire 0 ''spiff.markdown.edit'' exampleEvent] initial)) \<and>
   performingXmlUpdates
     (fst (run exampleEngine
            [Render (editorProps\<lparr>diagramXML := Some ''<other/>''\<rparr>), OverlayClick (hd exampleTasks),
             Render (editorProps\<lparr>diagramXML := Some ''<other/>''\<rparr>)]
            (run exampleEngine [Render editorProps, Render editorProps, Render editorProps,
                                Fire 0 ''spiff.markdown.edit'' exampleEvent] initial))) \<and>
   diagramXMLString
     (fst (commit exampleEngine (editorProps\<lparr>diagramXML := Some ''<other/>''\<rparr>)
            (run exampleEngine [Render editorProps, Render editorProps, Render editorProps,
                                Fire 0 ''spiff.markdown.edit'' exampleEvent] initial))) = ''<definitions/>''"
proof -
  let ?c = "run exampleEngine [Render editorProps, Render editorProps, Render editorProps,
                               Fire 0 ''spiff.markdown.edit'' exampleEvent] initial"
  let ?p = "editorProps\<lparr>diagramXML := Some ''<other/>''\<rparr>"
  have a: "supplied editorProps OnLaunchScriptEditor" "supplied editorProps OnLaunchMarkdownEditor"
    by code_simp+
  have g: "performingXmlUpdates (fst ?c)" by code_simp
  have x: "diagramXMLString (fst ?c) = ''<definitions/>''" by code_simp
  note t = guard_set_kept_and_suppressing
             [where p = editorProps and eng = exampleEngine and m = 0 and ev = exampleEvent
                and s = "fst initial" and c = ?c
                and inputs = "[Render ?p, OverlayClick (hd exampleTasks), Render ?p]"]
  note u = guard_set_kept_and_suppressing
             [where p = ?p and eng = exampleEngine and c = ?c]
  from t a have "performingXmlUpdates (final (runHandler exampleEngine HScriptEdit editorProps 0 exampleEvent (fst initial)))"
    "performingXmlUpdates (final (runHandler exampleEngine HMarkdownEdit editorProps 0 exampleEvent (fst initial)))"
    by blast+
  moreover from t g have "performingXmlUpdates
     (fst (run exampleEngine [Render ?p, OverlayClick (hd exampleTasks), Render ?p] ?c))"
    by blast
  moreover from u g x have "diagramXMLString (fst (commit exampleEngine ?p ?c)) = ''<definitions/>''"
    by simp
  ultimately show ?thesis using a g by blast
qed

section \<open>Destroying the engine\<close>

text \<open>
  C5, as the specification states it, fails. When the inline document changes while
  the view stays mounted, the cleanup of the import effect destroys the engine before
  the new document is imported into the same engine (first fact), and unmounting
  destroys it a second time (second fact). When the host's callbacks change before any
  document is loaded, a second engine is created and the first is never destroyed
  (third fact).
\<close>

theorem destroy_only_at_unmount_counterexample:
  "destroyed (trace (fst (run exampleEngine
       [Render editorProps, Render editorProps, Render editorProps,
        Render (editorProps\<lparr>diagramXML := Some ''<other/>''\<rparr>),
        Render (editorProps\<lparr>diagramXML := Some ''<other/>''\<rparr>)] initial))) = [0] \<and>
   trace (fst (unmount (run exampleEngine
       [Render editorProps, Render editorProps, Render editorProps,
        Render (editorProps\<lparr>diagramXML := Some ''<other/>''\<rparr>),
        Render (editorProps\<lparr>diagramXML := Some ''<other/>''\<rparr>)] initial))) =
     [NewBpmnModeler 0, ImportXML 0 ''<definitions/>'', CanvasZoom 0, Destroy 0,
      ImportXML 0 ''<other/>'', CanvasZoom 0, Destroy 0] \<and>
   trace (fst (unmount (run exampleEngine
       [Render editorProps, Render (editorProps\<lparr>host := []\<rparr>),
        Render (editorProps\<lparr>host := []\<rparr>), Render (editorProps\<lparr>host := []\<rparr>)] initial))) =
     [NewBpmnModeler 0, NewBpmnModeler 1, ImportXML 1 ''<definitions/>'', CanvasZoom 1, Destroy 1]"
  by code_simp

text \<open>
  C5, amended. In every run of the component, the engines that were destroyed are, in
  this order, the engines that documents were imported into, up to the last import,
  whose engine the pending cleanup will destroy; after unmounting the two sequences
  are the same. So \<^verbatim>\<open>destroy\<close> is called once for each import, on the engine of
  that import, before the import effect runs again or at unmounting.
\<close>

theorem destroy_once_per_import:
  "imported (trace (fst (run eng inputs initial))) =
     destroyed (trace (fst (run eng inputs initial))) @
       pending (importCleanup (snd (run eng inputs initial))) \<and>
   destroyed (trace (fst (unmount (run eng inputs initial)))) =
     imported (trace (fst (unmount (run eng inputs initial))))"
proof -
  have i: "imported (trace (fst initial)) =
             destroyed (trace (fst initial)) @ pending (importCleanup (snd initial))"
    by (simp add: initial_def pending_def)
  from run_views [OF i, of eng inputs] show ?thesis
    by (simp add: unmount_def)
qed

section \<open>The event that is subscribed twice\<close>

lemma onJson_append [simp]: "onJson m (xs @ ys) = onJson m xs @ onJson m ys"
  by (simp add: onJson_def)

lemma onJson_bridge:
  "onJson m (map (\<lambda>(name, h). \<lparr>sub_target = m0, sub_name = name, sub_handler = h, sub_props = p\<rparr>) bridge)
     = (if m = m0 then [firstForwarder m p, secondForwarder m p] else [])"
  by (simp add: onJson_def bridge_def jsonSchemaFilesRequested_def firstForwarder_def
        secondForwarder_def)

lemma onJson_fresh:
  assumes "\<forall>l \<in> set ls. sub_target l < m"
  shows "onJson m ls = []"
  using assms by (auto simp: onJson_def filter_empty_conv)

lemma createEffect_shape:
  "(\<exists>x. createEffect p s =
      s\<lparr>trace := trace s @ [x], nextObject := Suc (nextObject s),
        diagramModelerState := Some (nextObject s),
        listeners := listeners s @
          map (\<lambda>(name, h). \<lparr>sub_target = nextObject s, sub_name = name, sub_handler = h,
                             sub_props = p\<rparr>) bridge\<rparr>) \<or>
   (\<exists>x. createEffect p s = s\<lparr>trace := trace s @ [x], diagramModelerState := None\<rparr>)"
proof -
  consider "diagramType p = ''bpmn''" | "diagramType p \<noteq> ''bpmn''" "diagramType p = ''dmn''"
    | "diagramType p \<noteq> ''bpmn''" "diagramType p \<noteq> ''dmn''" "diagramType p = ''readonly''"
    | "diagramType p \<noteq> ''bpmn''" "diagramType p \<noteq> ''dmn''" "diagramType p \<noteq> ''readonly''"
    by blast
  then show ?thesis
  proof cases
    case 1
    then show ?thesis
      by (intro disjI1 exI [of _ "NewBpmnModeler (nextObject s)"])
         (simp add: createEffect_def Let_def fold_on emit_def)
  next
    case 2
    then show ?thesis
      by (intro disjI1 exI [of _ "NewDmnModeler (nextObject s)"])
         (simp add: createEffect_def Let_def fold_on emit_def)
  next
    case 3
    then show ?thesis
      by (intro disjI1 exI [of _ "NewBpmnViewer (nextObject s)"])
         (simp add: createEffect_def Let_def fold_on emit_def)
  next
    case 4
    then show ?thesis
      by (intro disjI2 exI [of _ "Uncaught ''TypeError''"])
         (simp add: createEffect_def Let_def emit_def)
  qed
qed

lemma wired_createEffect:
  assumes "wired s"
  shows "wired (createEffect p s)"
  using createEffect_shape [of p s]
proof (elim disjE exE)
  fix x
  assume "createEffect p s = s\<lparr>trace := trace s @ [x], diagramModelerState := None\<rparr>"
  with assms show ?thesis by (simp add: wired_def)
next
  fix x
  let ?new = "map (\<lambda>(name, h). \<lparr>sub_target = nextObject s, sub_name = name, sub_handler = h,
                             sub_props = p\<rparr>) bridge"
  assume e: "createEffect p s =
      s\<lparr>trace := trace s @ [x], nextObject := Suc (nextObject s),
        diagramModelerState := Some (nextObject s), listeners := listeners s @ ?new\<rparr>"
  have old: "\<forall>l \<in> set (listeners s). sub_target l < nextObject s"
    using assms by (simp add: wired_def)
  have new: "\<forall>l \<in> set ?new. sub_target l = nextObject s" by auto
  have a: "\<forall>l \<in> set (listeners s @ ?new). sub_target l < Suc (nextObject s)"
    using old new by (auto simp: less_Suc_eq)
  have c: "onJson m (listeners s @ ?new) = [] \<or>
           (\<exists>q. onJson m (listeners s @ ?new) = [firstForwarder m q, secondForwarder m q])" for m
  proof (cases "m = nextObject s")
    case True
    with old have "onJson m (listeners s) = []" by (simp add: onJson_fresh)
    with True have "onJson m (listeners s @ ?new) = [firstForwarder m p, secondForwarder m p]"
      by (simp add: onJson_bridge)
    then show ?thesis by blast
  next
    case False
    with assms show ?thesis by (simp add: onJson_bridge wired_def)
  qed
  show ?thesis
    unfolding wired_def e using a c by simp
qed

lemma wired_importEffect:
  assumes "wired s" and "\<forall>m. diagramModelerState snap = Some m \<longrightarrow> m < nextObject s"
  shows "wired (fst (importEffect eng p snap s))"
proof (cases "diagramModelerState snap = None \<or> diagramXMLString snap = []")
  case True
  with assms show ?thesis by (simp add: importEffect_skip)
next
  case False
  then obtain m where m: "diagramModelerState snap = Some m" "diagramXMLString snap \<noteq> []"
    by auto
  with assms(2) have lt: "m < nextObject s" by simp
  from importEffect_run [OF m, of eng p s] obtain xs where
    e: "importEffect eng p snap s =
           (s\<lparr>trace := trace s @ ImportXML m (diagramXMLString snap) # xs,
              listeners := listeners s @
                \<lparr>sub_target = m, sub_name = ''import.done'', sub_handler = HImportDone,
                  sub_props = p\<rparr> #
                (if diagramType p \<noteq> ''dmn''
                 then [\<lparr>sub_target = m, sub_name = ''import.parse.complete'',
                         sub_handler = HParseComplete, sub_props = p\<rparr>]
                 else [])\<rparr>,
            Some m)"
    by blast
  show ?thesis
    using assms(1) lt unfolding e
    by (auto simp: wired_def onJson_def jsonSchemaFilesRequested_def)
qed

lemma nextObject_createEffect: "nextObject s \<le> nextObject (createEffect p s)"
  using createEffect_shape [of p s] by auto

lemma wired_getXmlEffect:
  assumes "wired s"
  shows "wired (getXmlEffect p snap s)"
  using assms by (simp add: wired_def)

lemma wired_runCleanup:
  assumes "wired s"
  shows "wired (runCleanup c s)"
  using assms by (simp add: wired_def)

lemma wired_commit:
  assumes "wired (fst c)"
  shows "wired (fst (commit eng p c))"
proof -
  let ?snap = "fst c"
  let ?s1 = "if lastImport (snd c) \<noteq> Some (importDepsOf p ?snap)
             then runCleanup (importCleanup (snd c)) ?snap else ?snap"
  let ?s2 = "if lastCreate (snd c) \<noteq> Some (createDepsOf p) then createEffect p ?s1 else ?s1"
  let ?s3 = "if lastImport (snd c) \<noteq> Some (importDepsOf p ?snap)
             then fst (importEffect eng p ?snap ?s2) else ?s2"
  let ?s4 = "if lastGetXml (snd c) \<noteq> Some (getXmlDepsOf p ?snap)
             then getXmlEffect p ?snap ?s3 else ?s3"
  have w1: "wired ?s1" using assms by (simp add: wired_runCleanup)
  have n1: "nextObject ?s1 = nextObject ?snap" by simp
  have w2: "wired ?s2" using w1 by (simp add: wired_createEffect)
  have n2: "nextObject ?snap \<le> nextObject ?s2"
    using n1 nextObject_createEffect [of ?s1 p] by auto
  have "\<forall>m. diagramModelerState ?snap = Some m \<longrightarrow> m < nextObject ?snap"
    using assms by (simp add: wired_def)
  with n2 have h: "\<forall>m. diagramModelerState ?snap = Some m \<longrightarrow> m < nextObject ?s2"
    by (meson less_le_trans)
  have w3: "wired ?s3" using w2 h by (simp add: wired_importEffect)
  have w4: "wired ?s4" using w3 by (simp add: wired_getXmlEffect)
  have "fst (commit eng p c) = ?s4"
    by (simp add: commit_def Let_def)
  with w4 show ?thesis by simp
qed

lemma wired_touched: "wired (touched s xs b ys) = wired s"
  by (simp add: wired_def)

lemma wired_step:
  assumes "wired (fst c)"
  shows "wired (fst (step eng i c))"
proof (cases i)
  case (Render p)
  with assms show ?thesis by (simp add: wired_commit)
next
  case (Fire m name ev)
  obtain xs b ys where "fst (step eng (Fire m name ev) c) = touched (fst c) xs b ys"
    using fire_frame by blast
  with assms Fire show ?thesis by (simp add: wired_touched del: step.simps)
next
  case (OverlayClick t)
  with assms show ?thesis by (simp add: overlayClick_def emit_def wired_def)
next
  case (FetchResolved h token doc)
  with assms show ?thesis
    by (cases h) (simp_all add: bpmnTextHandler_def dmnTextHandler_def wired_def)
next
  case (FetchRejected err)
  with assms show ?thesis by (simp add: handleError_def emit_def wired_def)
next
  case (BackendSuccess file_contents)
  with assms show ?thesis by (simp add: setDiagramXMLStringFromResponseJson_def wired_def)
qed

lemma wired_run:
  assumes "wired (fst c)"
  shows "wired (fst (run eng inputs c))"
  using assms
proof (induction inputs arbitrary: c)
  case Nil
  then show ?case by (simp add: run_def)
next
  case (Cons i inputs)
  from Cons.IH [OF wired_step [OF Cons.prems]] show ?case by (simp add: run_Cons)
qed

lemma wired_initial: "wired (fst initial)"
  by (simp add: wired_def initial_def onJson_def)

lemma dispatch_forwarders:
  "dispatch eng [firstForwarder m p, secondForwarder m p] ev s =
     Inr (s\<lparr>trace := trace s @ forwardedToHost p ev\<rparr>)"
  by (simp add: firstForwarder_def secondForwarder_def forwardedToHost_def
        handleServiceTasksRequested_def emit_def)

text \<open>
  C9. The effect subscribes \<^verbatim>\<open>spiff.json_schema_files.requested\<close> twice: first with
  the listener that forwards to \<^verbatim>\<open>onJsonSchemaFilesRequested\<close>, later with one that
  calls \<^verbatim>\<open>handleServiceTasksRequested\<close>. In every state the component can reach,
  when the engine \<open>m\<close> on which the first of them is registered (with props \<open>p\<close>)
  fires the event, the dispatch returns normally and the host has been called, with
  that event, through \<^verbatim>\<open>onJsonSchemaFilesRequested\<close> if \<open>p\<close> supplies it and then
  through \<^verbatim>\<open>onServiceTasksRequested\<close> if \<open>p\<close> supplies it, and nothing else has
  happened.
\<close>

theorem json_schema_files_forwarded_twice:
  assumes "firstForwarder m p \<in> set (listeners (fst (run eng inputs initial)))"
  shows "fire eng m ''spiff.json_schema_files.requested'' ev (fst (run eng inputs initial)) =
           Inr ((fst (run eng inputs initial))
                  \<lparr>trace := trace (fst (run eng inputs initial)) @
                     (if supplied p OnJsonSchemaFilesRequested
                      then [HostCall OnJsonSchemaFilesRequested [AEvent ev]] else []) @
                     (if supplied p OnServiceTasksRequested
                      then [HostCall OnServiceTasksRequested [AEvent ev]] else [])\<rparr>) \<and>
         map snd (filter (\<lambda>(name, h). name = ''spiff.json_schema_files.requested'') bridge) =
           [HJsonSchemaFilesRequested, HJsonSchemaFilesRequestedAgain]"
proof -
  let ?s = "fst (run eng inputs initial)"
  have w: "wired ?s" using wired_initial by (rule wired_run)
  have "firstForwarder m p \<in> set (onJson m (listeners ?s))"
    using assms by (simp add: onJson_def firstForwarder_def)
  moreover have "onJson m (listeners ?s) = [] \<or>
      (\<exists>q. onJson m (listeners ?s) = [firstForwarder m q, secondForwarder m q])"
    using w by (simp add: wired_def)
  ultimately obtain q where q: "onJson m (listeners ?s) = [firstForwarder m q, secondForwarder m q]"
    "firstForwarder m p \<in> set [firstForwarder m q, secondForwarder m q]"
    by auto
  from q(2) have "q = p" by (auto simp: firstForwarder_def secondForwarder_def)
  with q(1) have "onJson m (listeners ?s) = [firstForwarder m p, secondForwarder m p]"
    by simp
  moreover have "fire eng m jsonSchemaFilesRequested ev ?s =
                   dispatch eng (onJson m (listeners ?s)) ev ?s"
    by (simp add: fire_def onJson_def)
  ultimately have "fire eng m jsonSchemaFilesRequested ev ?s =
                    Inr (?s\<lparr>trace := trace ?s @ forwardedToHost p ev\<rparr>)"
    by (simp only: dispatch_forwarders)
  moreover have "map snd (filter (\<lambda>(name, h). name = ''spiff.json_schema_files.requested'') bridge) =
           [HJsonSchemaFilesRequested, HJsonSchemaFilesRequestedAgain]"
    by (simp add: bridge_def)
  ultimately show ?thesis
    by (simp add: jsonSchemaFilesRequested_def forwardedToHost_def)
qed

theorem json_schema_files_forwarded_twice_witness:
  "firstForwarder 0 editorProps \<in> set (listeners (fst (run exampleEngine [Render editorProps] initial))) \<and>
   supplied editorProps OnJsonSchemaFilesRequested \<and> supplied editorProps OnServiceTasksRequested \<and>
   trace (final (fire exampleEngine 0 ''spiff.json_schema_files.requested'' exampleEvent
                  (fst (run exampleEngine [Render editorProps] initial)))) =
     [NewBpmnModeler 0,
      HostCall OnJsonSchemaFilesRequested [AEvent exampleEvent],
      HostCall OnServiceTasksRequested [AEvent exampleEvent]]"
proof -
  let ?s = "fst (run exampleEngine [Render editorProps] initial)"
  have a: "firstForwarder 0 editorProps \<in> set (listeners ?s)" by code_simp
  have b: "supplied editorProps OnJsonSchemaFilesRequested" "supplied editorProps OnServiceTasksRequested"
    by code_simp+
  have t: "trace ?s = [NewBpmnModeler 0]" by code_simp
  from json_schema_files_forwarded_twice [OF a, where ev = exampleEvent] b t
  have "trace (final (fire exampleEngine 0 ''spiff.json_schema_files.requested'' exampleEvent ?s)) =
     [NewBpmnModeler 0,
      HostCall OnJsonSchemaFilesRequested [AEvent exampleEvent],
      HostCall OnServiceTasksRequested [AEvent exampleEvent]]"
    by simp
  with a b show ?thesis by blast
qed

section \<open>Restoring the loop references\<close>

lemma restoreReference_moddle:
  "\<exists>e. restoreReference r s = s\<lparr>moddle := (slot r, e) # moddle s\<rparr> \<and>
       el_type e = ''bpmn:ItemAwareElement'' \<and> el_id e = ref_id r \<and> el_parent e = ref_element r"
proof -
  let ?e = "\<lparr>el_type = ''bpmn:ItemAwareElement'', el_id = ref_id r,
             el_name = (if truthy (ref_id r) then Bool (ref_name r = None)
                        else (case ref_name r of None \<Rightarrow> Undefined | Some n \<Rightarrow> Str n)),
             el_parent = ref_element r\<rparr>"
  have "restoreReference r s = s\<lparr>moddle := (slot r, ?e) # moddle s\<rparr>"
    by (simp add: restoreReference_def slot_def)
  then show ?thesis by (intro exI [of _ ?e]) simp
qed

lemma fold_restoreReference:
  "\<exists>new. fold restoreReference rs s = s\<lparr>moddle := new @ moddle s\<rparr> \<and>
         map fst new = rev (map slot rs) \<and>
         (\<forall>e \<in> set (map snd new). el_type e = ''bpmn:ItemAwareElement'') \<and>
         (\<forall>r \<in> set rs. distinct (map slot rs) \<longrightarrow>
            (\<exists>e. map_of new (slot r) = Some e \<and> el_id e = ref_id r \<and> el_parent e = ref_element r))"
proof (induction rs arbitrary: s)
  case Nil
  show ?case by (intro exI [of _ "[]"]) simp
next
  case (Cons r rs)
  obtain e where e: "restoreReference r s = s\<lparr>moddle := (slot r, e) # moddle s\<rparr>"
      "el_type e = ''bpmn:ItemAwareElement''" "el_id e = ref_id r" "el_parent e = ref_element r"
    using restoreReference_moddle by blast
  let ?s1 = "restoreReference r s"
  obtain new where new: "fold restoreReference rs ?s1 = ?s1\<lparr>moddle := new @ moddle ?s1\<rparr>"
      "map fst new = rev (map slot rs)"
      "\<forall>e \<in> set (map snd new). el_type e = ''bpmn:ItemAwareElement''"
      "\<forall>q \<in> set rs. distinct (map slot rs) \<longrightarrow>
            (\<exists>e. map_of new (slot q) = Some e \<and> el_id e = ref_id q \<and> el_parent e = ref_element q)"
    using Cons.IH [of ?s1] by blast
  let ?new = "new @ [(slot r, e)]"
  have a: "fold restoreReference (r # rs) s = s\<lparr>moddle := ?new @ moddle s\<rparr>"
    using new(1) e(1) by simp
  have b: "map fst ?new = rev (map slot (r # rs))" using new(2) by simp
  have c: "\<forall>e \<in> set (map snd ?new). el_type e = ''bpmn:ItemAwareElement''"
    using new(3) e(2) by auto
  have d: "\<exists>x. map_of ?new (slot q) = Some x \<and> el_id x = ref_id q \<and> el_parent x = ref_element q"
    if q: "q \<in> set (r # rs)" and dist: "distinct (map slot (r # rs))" for q
  proof (cases "q \<in> set rs")
    case True
    with new(4) dist obtain x where "map_of new (slot q) = Some x" "el_id x = ref_id q"
      "el_parent x = ref_element q" by auto
    then show ?thesis by (auto simp: map_add_Some_iff)
  next
    case False
    with q have qr: "q = r" by simp
    from dist have "slot r \<notin> set (map slot rs)" by simp
    with new(2) have "slot r \<notin> fst ` set new"
      by (metis list.set_map set_rev)
    then have "map_of new (slot r) = None" by (simp add: map_of_eq_None_iff)
    with qr e show ?thesis by (auto simp: map_add_Some_iff)
  qed
  from a b c d show ?case by blast
qed

lemma onParseComplete_restores:
  assumes "ev_references ev = Some refs"
  shows "\<exists>new. onParseComplete ev s = s\<lparr>moddle := new @ moddle s\<rparr> \<and>
           map fst new = rev (map slot (filter isLoopDataRef refs)) \<and>
           (\<forall>e \<in> set (map snd new). el_type e = ''bpmn:ItemAwareElement'') \<and>
           (\<forall>r \<in> set refs. isLoopDataRef r \<longrightarrow>
              distinct (map slot (filter isLoopDataRef refs)) \<longrightarrow>
              (\<exists>e. map_of (moddle (onParseComplete ev s)) (slot r) = Some e \<and>
                   el_type e = ''bpmn:ItemAwareElement'' \<and>
                   el_id e = ref_id r \<and> el_parent e = ref_element r))"
proof -
  let ?rs = "filter isLoopDataRef refs"
  obtain new where new: "fold restoreReference ?rs s = s\<lparr>moddle := new @ moddle s\<rparr>"
      "map fst new = rev (map slot ?rs)"
      "\<forall>e \<in> set (map snd new). el_type e = ''bpmn:ItemAwareElement''"
      "\<forall>r \<in> set ?rs. distinct (map slot ?rs) \<longrightarrow>
            (\<exists>e. map_of new (slot r) = Some e \<and> el_id e = ref_id r \<and> el_parent e = ref_element r)"
    using fold_restoreReference [of ?rs s] by blast
  have o: "onParseComplete ev s = s\<lparr>moddle := new @ moddle s\<rparr>"
    using assms new(1) by (simp add: onParseComplete_def)
  have "\<exists>e. map_of (moddle (onParseComplete ev s)) (slot r) = Some e \<and>
             el_type e = ''bpmn:ItemAwareElement'' \<and> el_id e = ref_id r \<and> el_parent e = ref_element r"
    if r: "r \<in> set refs" "isLoopDataRef r" and d: "distinct (map slot ?rs)" for r
  proof -
    from r have "r \<in> set ?rs" by simp
    with new(4) d obtain e where e: "map_of new (slot r) = Some e" "el_id e = ref_id r"
      "el_parent e = ref_element r" by blast
    from e(1) have "e \<in> set (map snd new)"
      by (metis map_of_SomeD set_zip_rightD zip_map_fst_snd)
    with new(3) have "el_type e = ''bpmn:ItemAwareElement''" by blast
    with e o show ?thesis by (simp add: map_add_Some_iff)
  qed
  with o new(2,3) show ?thesis by blast
qed

lemma offDmn_createEffect:
  assumes "parseCompleteOnlyOffDmn s"
  shows "parseCompleteOnlyOffDmn (createEffect p s)"
  using createEffect_shape [of p s] assms
  by (auto simp: parseCompleteOnlyOffDmn_def bridge_def)

lemma offDmn_importEffect:
  assumes "parseCompleteOnlyOffDmn s"
  shows "parseCompleteOnlyOffDmn (fst (importEffect eng p snap s))"
proof (cases "diagramModelerState snap = None \<or> diagramXMLString snap = []")
  case True
  with assms show ?thesis by (simp add: importEffect_skip)
next
  case False
  then obtain m where m: "diagramModelerState snap = Some m" "diagramXMLString snap \<noteq> []"
    by auto
  from importEffect_run [OF m, of eng p s] assms show ?thesis
    by (auto simp: parseCompleteOnlyOffDmn_def)
qed

lemma offDmn_commit:
  assumes "parseCompleteOnlyOffDmn (fst c)"
  shows "parseCompleteOnlyOffDmn (fst (commit eng p c))"
proof -
  let ?snap = "fst c"
  let ?s1 = "if lastImport (snd c) \<noteq> Some (importDepsOf p ?snap)
             then runCleanup (importCleanup (snd c)) ?snap else ?snap"
  let ?s2 = "if lastCreate (snd c) \<noteq> Some (createDepsOf p) then createEffect p ?s1 else ?s1"
  let ?s3 = "if lastImport (snd c) \<noteq> Some (importDepsOf p ?snap)
             then fst (importEffect eng p ?snap ?s2) else ?s2"
  let ?s4 = "if lastGetXml (snd c) \<noteq> Some (getXmlDepsOf p ?snap)
             then getXmlEffect p ?snap ?s3 else ?s3"
  have w1: "parseCompleteOnlyOffDmn ?s1" using assms by (simp add: parseCompleteOnlyOffDmn_def)
  have w2: "parseCompleteOnlyOffDmn ?s2" using w1 by (simp add: offDmn_createEffect)
  have w3: "parseCompleteOnlyOffDmn ?s3" using w2 by (simp add: offDmn_importEffect)
  have w4: "parseCompleteOnlyOffDmn ?s4" using w3 by (simp add: parseCompleteOnlyOffDmn_def)
  have "fst (commit eng p c) = ?s4"
    by (simp add: commit_def Let_def)
  with w4 show ?thesis by simp
qed

lemma offDmn_step:
  assumes "parseCompleteOnlyOffDmn (fst c)"
  shows "parseCompleteOnlyOffDmn (fst (step eng i c))"
proof (cases i)
  case (Render p)
  with assms show ?thesis by (simp add: offDmn_commit)
next
  case (Fire m name ev)
  obtain xs b ys where "fst (step eng (Fire m name ev) c) = touched (fst c) xs b ys"
    using fire_frame by blast
  with assms Fire show ?thesis by (simp add: parseCompleteOnlyOffDmn_def del: step.simps)
next
  case (OverlayClick t)
  with assms show ?thesis by (simp add: overlayClick_def emit_def parseCompleteOnlyOffDmn_def)
next
  case (FetchResolved h token doc)
  with assms show ?thesis
    by (cases h) (simp_all add: bpmnTextHandler_def dmnTextHandler_def parseCompleteOnlyOffDmn_def)
next
  case (FetchRejected err)
  with assms show ?thesis by (simp add: handleError_def emit_def parseCompleteOnlyOffDmn_def)
next
  case (BackendSuccess file_contents)
  with assms show ?thesis
    by (simp add: setDiagramXMLStringFromResponseJson_def parseCompleteOnlyOffDmn_def)
qed

lemma offDmn_run:
  assumes "parseCompleteOnlyOffDmn (fst c)"
  shows "parseCompleteOnlyOffDmn (fst (run eng inputs c))"
  using assms
proof (induction inputs arbitrary: c)
  case Nil
  then show ?case by (simp add: run_def)
next
  case (Cons i inputs)
  from Cons.IH [OF offDmn_step [OF Cons.prems]] show ?case by (simp add: run_Cons)
qed

lemma importEffect_registers:
  assumes "diagramModelerState snap = Some m" and "diagramXMLString snap \<noteq> []"
    and "diagramType p \<noteq> ''dmn''"
  shows "\<lparr>sub_target = m, sub_name = ''import.parse.complete'', sub_handler = HParseComplete,
           sub_props = p\<rparr> \<in> set (listeners (fst (importEffect eng p snap s))) \<and>
         ImportXML m (diagramXMLString snap) \<in> set (trace (fst (importEffect eng p snap s)))"
  using importEffect_run [OF assms(1,2), of eng p s] assms(3) by auto

text \<open>
  C3. The import effect loads the document into the engine and, unless the diagram
  type is \<^verbatim>\<open>dmn\<close>, registers the listener for \<^verbatim>\<open>import.parse.complete\<close> on it; in
  no state the component can reach is there such a listener that an import of type
  \<^verbatim>\<open>dmn\<close> registered. When the engine calls the listener with the references it
  dropped, the listener creates, for each reference whose property is
  \<^verbatim>\<open>bpmn:loopDataInputRef\<close> or \<^verbatim>\<open>bpmn:loopDataOutputRef\<close> and for no other, one element
  of type \<^verbatim>\<open>bpmn:ItemAwareElement\<close> and sets it on the owning object under that
  property, in the order of the list; where the places differ, the element found at
  the place of a reference carries the reference's id and has the owning object as its
  parent. Without a list of references the listener does nothing.
\<close>

theorem loop_references_restored:
  "(ev_references ev = Some refs \<longrightarrow>
      (\<exists>new. onParseComplete ev s = s\<lparr>moddle := new @ moddle s\<rparr> \<and>
         map fst new = rev (map slot (filter isLoopDataRef refs)) \<and>
         (\<forall>e \<in> set (map snd new). el_type e = ''bpmn:ItemAwareElement'') \<and>
         (\<forall>r \<in> set refs. isLoopDataRef r \<longrightarrow>
            distinct (map slot (filter isLoopDataRef refs)) \<longrightarrow>
            (\<exists>e. map_of (moddle (onParseComplete ev s)) (slot r) = Some e \<and>
                 el_type e = ''bpmn:ItemAwareElement'' \<and>
                 el_id e = ref_id r \<and> el_parent e = ref_element r)))) \<and>
   (ev_references ev = None \<longrightarrow> onParseComplete ev s = s) \<and>
   (isLoopDataRef r =
      (ref_property r = ''bpmn:loopDataInputRef'' \<or> ref_property r = ''bpmn:loopDataOutputRef'')) \<and>
   runHandler eng HParseComplete p m ev s = Inr (onParseComplete ev s) \<and>
   (diagramModelerState snap = Some m \<longrightarrow> diagramXMLString snap \<noteq> [] \<longrightarrow>
    diagramType p \<noteq> ''dmn'' \<longrightarrow>
      \<lparr>sub_target = m, sub_name = ''import.parse.complete'', sub_handler = HParseComplete,
        sub_props = p\<rparr> \<in> set (listeners (fst (importEffect eng p snap s))) \<and>
      ImportXML m (diagramXMLString snap) \<in> set (trace (fst (importEffect eng p snap s)))) \<and>
   (\<forall>l \<in> set (listeners (fst (run eng inputs initial))).
      sub_handler l = HParseComplete \<longrightarrow> diagramType (sub_props l) \<noteq> ''dmn'')"
proof (intro conjI impI)
  assume "ev_references ev = Some refs"
  then show "\<exists>new. onParseComplete ev s = s\<lparr>moddle := new @ moddle s\<rparr> \<and>
         map fst new = rev (map slot (filter isLoopDataRef refs)) \<and>
         (\<forall>e \<in> set (map snd new). el_type e = ''bpmn:ItemAwareElement'') \<and>
         (\<forall>r \<in> set refs. isLoopDataRef r \<longrightarrow>
            distinct (map slot (filter isLoopDataRef refs)) \<longrightarrow>
            (\<exists>e. map_of (moddle (onParseComplete ev s)) (slot r) = Some e \<and>
                 el_type e = ''bpmn:ItemAwareElement'' \<and>
                 el_id e = ref_id r \<and> el_parent e = ref_element r))"
    by (rule onParseComplete_restores)
next
  assume "ev_references ev = None"
  then show "onParseComplete ev s = s" by (simp add: onParseComplete_def)
next
  show "isLoopDataRef r =
      (ref_property r = ''bpmn:loopDataInputRef'' \<or> ref_property r = ''bpmn:loopDataOutputRef'')"
    by (simp add: isLoopDataRef_def)
next
  show "runHandler eng HParseComplete p m ev s = Inr (onParseComplete ev s)" by simp
next
  assume a: "diagramModelerState snap = Some m" "diagramXMLString snap \<noteq> []" "diagramType p \<noteq> ''dmn''"
  from importEffect_registers [OF a, of eng s]
  show "\<lparr>sub_target = m, sub_name = ''import.parse.complete'', sub_handler = HParseComplete,
        sub_props = p\<rparr> \<in> set (listeners (fst (importEffect eng p snap s)))"
    and "ImportXML m (diagramXMLString snap) \<in> set (trace (fst (importEffect eng p snap s)))"
    by simp_all
next
  have "parseCompleteOnlyOffDmn (fst initial)"
    by (simp add: parseCompleteOnlyOffDmn_def initial_def)
  then have "parseCompleteOnlyOffDmn (fst (run eng inputs initial))" by (rule offDmn_run)
  then show "\<forall>l \<in> set (listeners (fst (run eng inputs initial))).
      sub_handler l = HParseComplete \<longrightarrow> diagramType (sub_props l) \<noteq> ''dmn''"
    by (simp add: parseCompleteOnlyOffDmn_def)
qed

theorem loop_references_restored_witness:
  "ev_references parsedEvent = Some exampleReferences \<and>
   moddle (onParseComplete parsedEvent (fst initial)) =
     [((7, ''bpmn:loopDataOutputRef''),
       \<lparr>el_type = ''bpmn:ItemAwareElement'', el_id = Some ''output_items'', el_name = Bool True,
        el_parent = 7\<rparr>),
      ((7, ''bpmn:loopDataInputRef''),
       \<lparr>el_type = ''bpmn:ItemAwareElement'', el_id = Some ''input_items'', el_name = Bool True,
        el_parent = 7\<rparr>)] \<and>
   (\<exists>e. map_of (moddle (onParseComplete parsedEvent (fst initial))) (7, ''bpmn:loopDataInputRef'') = Some e \<and>
        el_id e = Some ''input_items'' \<and> el_parent e = 7) \<and>
   onParseComplete exampleEvent (fst initial) = fst initial \<and>
   \<lparr>sub_target = 0, sub_name = ''import.parse.complete'', sub_handler = HParseComplete,
     sub_props = editorProps\<rparr>
     \<in> set (listeners (fst (run exampleEngine [Render editorProps, Render editorProps, Render editorProps] initial))) \<and>
   diagramType editorProps \<noteq> ''dmn'' \<and>
   moddle (fst (run exampleEngine [Render editorProps, Render editorProps, Render editorProps,
                                   Fire 0 ''import.parse.complete'' parsedEvent] initial)) =
     moddle (onParseComplete parsedEvent (fst initial)) \<and>
   ImportXML 0 ''<definitions/>''
     \<in> set (trace (fst (run exampleEngine [Render dmnProps, Render dmnProps, Render dmnProps] initial))) \<and>
   list_all (\<lambda>l. sub_handler l \<noteq> HParseComplete)
     (listeners (fst (run exampleEngine [Render dmnProps, Render dmnProps, Render dmnProps] initial)))"
proof -
  let ?in = "\<lparr>ref_element = 7, ref_property = ''bpmn:loopDataInputRef'', ref_id = Some ''input_items'',
       ref_name = None\<rparr>"
  let ?sub = "\<lparr>sub_target = 0, sub_name = ''import.parse.complete'', sub_handler = HParseComplete,
     sub_props = editorProps\<rparr>"
  let ?edit = "run exampleEngine [Render editorProps, Render editorProps, Render editorProps] initial"
  let ?dmn = "run exampleEngine [Render dmnProps, Render dmnProps, Render dmnProps] initial"
  note t = loop_references_restored
             [where ev = parsedEvent and refs = exampleReferences and s = "fst initial"
                and eng = exampleEngine and inputs = "[Render editorProps, Render editorProps, Render editorProps]"]
  note n = loop_references_restored [where ev = exampleEvent and s = "fst initial"]
  have a: "ev_references parsedEvent = Some exampleReferences"
    by (simp add: parsedEvent_def)
  have b: "?in \<in> set exampleReferences" "isLoopDataRef ?in"
    "distinct (map slot (filter isLoopDataRef exampleReferences))"
    by code_simp+
  from t a b have c: "\<exists>e. map_of (moddle (onParseComplete parsedEvent (fst initial))) (slot ?in) = Some e \<and>
        el_type e = ''bpmn:ItemAwareElement'' \<and> el_id e = ref_id ?in \<and> el_parent e = ref_element ?in"
    by blast
  then have c': "\<exists>e. map_of (moddle (onParseComplete parsedEvent (fst initial))) (7, ''bpmn:loopDataInputRef'') = Some e \<and>
        el_id e = Some ''input_items'' \<and> el_parent e = 7"
    by (auto simp: slot_def)
  have d: "moddle (onParseComplete parsedEvent (fst initial)) =
     [((7, ''bpmn:loopDataOutputRef''),
       \<lparr>el_type = ''bpmn:ItemAwareElement'', el_id = Some ''output_items'', el_name = Bool True,
        el_parent = 7\<rparr>),
      ((7, ''bpmn:loopDataInputRef''),
       \<lparr>el_type = ''bpmn:ItemAwareElement'', el_id = Some ''input_items'', el_name = Bool True,
        el_parent = 7\<rparr>)]"
    by code_simp
  have "ev_references exampleEvent = None" by (simp add: exampleEvent_def)
  with n have e: "onParseComplete exampleEvent (fst initial) = fst initial" by blast
  have f: "?sub \<in> set (listeners (fst ?edit))" by code_simp
  with t have g: "diagramType editorProps \<noteq> ''dmn''" by force
  have h: "moddle (fst (run exampleEngine [Render editorProps, Render editorProps, Render editorProps,
                                   Fire 0 ''import.parse.complete'' parsedEvent] initial)) =
     moddle (onParseComplete parsedEvent (fst initial))"
    by code_simp
  have i: "ImportXML 0 ''<definitions/>'' \<in> set (trace (fst ?dmn))" by code_simp
  have j: "list_all (\<lambda>l. sub_handler l \<noteq> HParseComplete) (listeners (fst ?dmn))" by code_simp
  from a d c' e f g h i j show ?thesis by blast
qed

end
